theory Spec2Isabelle
  imports Main "HOL-Library.AList"
begin

section \<open>Conventions of the embedding\<close>

text \<open>
  The development follows the TypeScript sources of the load generator:
  \<open>runtime/batcher.ts\<close>, \<open>distributor/distributor.ts\<close>, \<open>distributor/tokenDistributor.ts\<close>,
  \<open>runtime/signer.ts\<close> and \<open>runtime/eoa.ts\<close>.

  \<^item> \<open>BigNumber\<close> amounts are arbitrary-precision integers and are modelled as \<open>int\<close>. The token
    distributor computes with JavaScript numbers; the amounts it handles are whole numbers
    of tokens, modelled as \<open>int\<close> as well.
  \<^item> Mnemonic indexes, nonces, batch sizes and counters are modelled as \<open>nat\<close>.
  \<^item> A thrown exception is the \<open>Inl\<close> branch of a sum; a call that never returns is \<open>None\<close>.
  \<^item> Everything outside the repository (the node behind JSON-RPC, wallet derivation from
    the mnemonic, the \<open>heap\<close> package) is a parameter: the record \<open>env\<close> below.
  \<^item> Progress bars and log lines are left out, except the one log line that is the only
    trace of an abandoned transaction (\<open>maxRetriesReached\<close>).
\<close>

datatype error =
  errNotEnoughFunds
  | TypeError
  | DynamicFeeDataNotAvailable
  | InvalidBigNumber

section \<open>Batcher\<close>

subsection \<open>generateBatches\<close>

text \<open>
  \<open>Math.ceil(items.length / batchSize)\<close> on two non-negative integers is a non-negative
  integer, \<open>Infinity\<close> (\<open>n / 0\<close> with \<open>n > 0\<close>) or \<open>NaN\<close> (\<open>0 / 0\<close>); these are the values of
  \<open>jsnum\<close>. \<open>js_less i k\<close> is the loop test \<open>i < numBatches\<close>: every comparison with \<open>NaN\<close> is
  false, and every integer is below \<open>Infinity\<close>. For array lengths the floating-point quotient
  rounds up to the exact integer ceiling.
\<close>

datatype jsnum = Finite nat | Infinity | NaN

definition ceilDiv :: "nat \<Rightarrow> nat \<Rightarrow> jsnum" where
  "ceilDiv n b =
     (if b = 0 then (if n = 0 then NaN else Infinity)
      else Finite ((n + b - 1) div b))"

fun js_less :: "nat \<Rightarrow> jsnum \<Rightarrow> bool" where
  "js_less i (Finite k) = (i < k)"
| "js_less i Infinity = True"
| "js_less i NaN = False"

text \<open>The first statements of \<open>generateBatches\<close>: the batch count, with \<open>0\<close> replaced by \<open>1\<close>.\<close>

definition numBatchesOf :: "nat \<Rightarrow> nat \<Rightarrow> jsnum" where
  "numBatchesOf n batchSize =
     (let numBatches = ceilDiv n batchSize
      in if numBatches = Finite 0 then Finite 1 else numBatches)"

text \<open>
  The loop \<open>for (let i = 0; i < numBatches; i++) batches[i] = []\<close>. It starts from the empty
  array with \<open>i = 0\<close>, so \<open>i\<close> is the length of \<open>batches\<close> throughout and the assignment
  appends. With \<open>numBatches = Infinity\<close> the loop never ends.
\<close>

partial_function (option) initBatches :: "nat \<Rightarrow> jsnum \<Rightarrow> 'a list list \<Rightarrow> 'a list list option" where
  "initBatches i numBatches batches =
     (if js_less i numBatches then initBatches (Suc i) numBatches (batches @ [[]])
      else Some batches)"

declare initBatches.simps [code]

text \<open>
  The loop over the items. \<open>batches[currentBatch].push(item)\<close> raises a \<open>TypeError\<close> when
  \<open>currentBatch\<close> is not an index of \<open>batches\<close>. The test \<open>length % batchSize == 0\<close> is false
  for \<open>batchSize = 0\<close> (the remainder is \<open>NaN\<close>).
\<close>

fun fillBatches :: "nat \<Rightarrow> 'a list \<Rightarrow> 'a list list \<Rightarrow> nat \<Rightarrow> error + 'a list list" where
  "fillBatches batchSize [] batches currentBatch = Inr batches"
| "fillBatches batchSize (item # items) batches currentBatch =
     (if currentBatch < length batches then
        (let batches' = batches[currentBatch := batches ! currentBatch @ [item]]
         in fillBatches batchSize items batches'
              (if batchSize \<noteq> 0 \<and> length (batches' ! currentBatch) mod batchSize = 0
               then Suc currentBatch else currentBatch))
      else Inl TypeError)"

definition generateBatches :: "'a list \<Rightarrow> nat \<Rightarrow> (error + 'a list list) option" where
  "generateBatches items batchSize =
     (case initBatches 0 (numBatchesOf (length items) batchSize) [] of
        None \<Rightarrow> None
      | Some batches \<Rightarrow> Some (fillBatches batchSize items batches 0))"

subsection \<open>Sending\<close>

text \<open>
  One element of a JSON-RPC batch response carries an error message or a result (the
  transaction hash); every element is taken to have one of these two shapes. An HTTP call
  either yields a response array, or makes the \<open>try\<close> block throw (\<open>TransportFailure\<close>: no
  connection, an error status, a body that is not an array).

  The node is a function \<open>post\<close>: given the request (the list of \<open>id\<close> and raw transaction
  of each \<open>eth_sendRawTransaction\<close> call) and the number of attempts already made for it,
  it gives the outcome of the next attempt.
\<close>

datatype rpc_response = RpcError string | RpcResult string

datatype http_outcome = TransportFailure | Response "rpc_response list"

type_synonym 'p post = "(nat \<times> 'p) list \<Rightarrow> nat \<Rightarrow> http_outcome"

text \<open>
  The two collections every send appends to, and the number of times the line
  \<open>Max retries reached. Failed to send transaction.\<close> was logged.
\<close>

record collected =
  txHashes :: "string list"
  batchErrors :: "string list"
  maxRetriesReached :: nat

text \<open>The loop \<open>for (const cnt of content)\<close> of both send functions.\<close>

fun collectContent :: "rpc_response list \<Rightarrow> collected \<Rightarrow> collected" where
  "collectContent [] st = st"
| "collectContent (RpcError message # content) st =
     collectContent content (st\<lparr>batchErrors := batchErrors st @ [message]\<rparr>)"
| "collectContent (RpcResult result # content) st =
     collectContent content (st\<lparr>txHashes := txHashes st @ [result]\<rparr>)"

text \<open>
  \<open>Batcher.sendTransaction\<close>, as its caller sees it. On a response it appends to the two
  collections. On a failure it logs, calls itself again without awaiting that call, and
  returns: the retry runs in the background. The model keeps, next to the collections,
  the list of the requests whose retry was started in the background, each with the
  number of attempts made for it so far. \<open>attempt\<close> counts the calls already made for this
  request.
\<close>

type_synonym 'p retry = "(nat \<times> 'p) list \<times> nat"

definition sendTransaction ::
  "'p post \<Rightarrow> (nat \<times> 'p) list \<Rightarrow> nat \<Rightarrow> collected \<times> 'p retry list
     \<Rightarrow> collected \<times> 'p retry list" where
  "sendTransaction post singleRequests attempt st =
     (case st of (c, background) \<Rightarrow>
        (case post singleRequests attempt of
           Response content \<Rightarrow> (collectContent content c, background)
         | TransportFailure \<Rightarrow> (c, background @ [(singleRequests, Suc attempt)])))"

text \<open>
  A retry in the background is the same function, started again at every failure,
  without bound; it appends to the collections when a response arrives.
\<close>

partial_function (option) backgroundRetry ::
  "'p post \<Rightarrow> (nat \<times> 'p) list \<Rightarrow> nat \<Rightarrow> collected \<Rightarrow> collected option" where
  "backgroundRetry post singleRequests attempt c =
     (case post singleRequests attempt of
        Response content \<Rightarrow> Some (collectContent content c)
      | TransportFailure \<Rightarrow> backgroundRetry post singleRequests (Suc attempt) c)"

declare backgroundRetry.simps [code]

text \<open>
  The collections once every retry started in the background has ended. When a retry
  appends, relative to the other retries and to the later steps of the caller, depends on
  when the node answers; \<open>settle\<close> appends their results one retry after the other, which
  gives the same elements in a possibly different order.
\<close>

fun settle :: "'p post \<Rightarrow> 'p retry list \<Rightarrow> collected \<Rightarrow> collected option" where
  "settle post [] c = Some c"
| "settle post ((singleRequests, attempt) # background) c =
     (case backgroundRetry post singleRequests attempt c of
        None \<Rightarrow> None
      | Some c' \<Rightarrow> settle post background c')"

text \<open>
  The loop over the batches in \<open>batchTransactions\<close>; request ids are \<open>nextIndx++\<close> across
  all batches.
\<close>

fun sendBatches ::
  "'p post \<Rightarrow> 'p list list \<Rightarrow> nat \<Rightarrow> collected \<times> 'p retry list \<Rightarrow> collected \<times> 'p retry list" where
  "sendBatches post [] nextIndx st = st"
| "sendBatches post (batch # batches) nextIndx st =
     sendBatches post batches (nextIndx + length batch)
       (sendTransaction post (zip [nextIndx ..< nextIndx + length batch] batch) 0 st)"

text \<open>
  \<open>Batcher.batchTransactions\<close> returns \<open>txHashes\<close> and logs \<open>batchErrors\<close>; the model returns
  both, together with the retries started in the background. Whether such a retry has
  appended before \<open>batchTransactions\<close> returns is decided by the time the node takes to
  answer, not by the program; the model gives the collections as the awaited calls alone
  have filled them, and \<open>settle\<close> gives them after the retries.
  \<open>generateBatches\<close> is called outside the \<open>try\<close> block.
\<close>

definition batchTransactions ::
  "'p list \<Rightarrow> nat \<Rightarrow> 'p post \<Rightarrow> (error + collected \<times> 'p retry list) option" where
  "batchTransactions signedTxs batchSize post =
     (case generateBatches signedTxs batchSize of
        None \<Rightarrow> None
      | Some (Inl e) \<Rightarrow> Some (Inl e)
      | Some (Inr batches) \<Rightarrow>
          Some (Inr (sendBatches post batches 0
                       (\<lparr>txHashes = [], batchErrors = [], maxRetriesReached = 0\<rparr>, []))))"

text \<open>
  \<open>Batcher.sendTransactionWithRetry\<close>: the loop \<open>while (retries < maxRetries)\<close>, which returns
  from inside on a response and, once the bound is reached, logs one line and returns.
\<close>

function retryLoop :: "'p post \<Rightarrow> (nat \<times> 'p) list \<Rightarrow> nat \<Rightarrow> nat \<Rightarrow> collected \<Rightarrow> collected" where
  "retryLoop post singleRequests retries maxRetries st =
     (if retries < maxRetries then
        (case post singleRequests retries of
           Response content \<Rightarrow> collectContent content st
         | TransportFailure \<Rightarrow> retryLoop post singleRequests (Suc retries) maxRetries st)
      else st\<lparr>maxRetriesReached := Suc (maxRetriesReached st)\<rparr>)"
  by pat_completeness auto
termination
  by (relation "measure (\<lambda>(post, singleRequests, retries, maxRetries, st). maxRetries - retries)") auto

definition sendTransactionWithRetry ::
  "'p post \<Rightarrow> (nat \<times> 'p) list \<Rightarrow> collected \<Rightarrow> nat \<Rightarrow> collected" where
  "sendTransactionWithRetry post singleRequests st maxRetries =
     retryLoop post singleRequests 0 maxRetries st"

text \<open>
  \<open>Batcher.sendTransactionsInParallelBySender\<close>. \<open>signedTxs\<close> is a \<open>Map\<close> from sender address
  to that sender's transactions, modelled as an association list in insertion order.
  Each sender's transactions are sent one at a time, each as a request with \<open>id: 0\<close> and up
  to three attempts. The tasks of different senders interleave in the source; they only
  append to the shared collections, so the model runs them one after the other, which
  gives the same elements in a possibly different order.
\<close>

fun sendSenderTxs :: "'p post \<Rightarrow> 'p list \<Rightarrow> collected \<Rightarrow> collected" where
  "sendSenderTxs post [] st = st"
| "sendSenderTxs post (tx # txs) st =
     sendSenderTxs post txs (sendTransactionWithRetry post [(0, tx)] st 3)"

fun sendAllSenders :: "'p post \<Rightarrow> (string \<times> 'p list) list \<Rightarrow> collected \<Rightarrow> collected" where
  "sendAllSenders post [] st = st"
| "sendAllSenders post ((address, txs) # senders) st =
     sendAllSenders post senders (sendSenderTxs post txs st)"

definition sendTransactionsInParallelBySender ::
  "(string \<times> 'p list) list \<Rightarrow> 'p post \<Rightarrow> collected" where
  "sendTransactionsInParallelBySender signedTxs post =
     sendAllSenders post signedTxs \<lparr>txHashes = [], batchErrors = [], maxRetriesReached = 0\<rparr>"

section \<open>The environment\<close>

text \<open>
  A transaction request of the provider library, with the fields the sources set. Signing
  adds a signature and encodes the request; the model lets the request stand for its
  signed encoding.
\<close>

record TransactionRequest =
  tx_from :: "string option"
  tx_to :: string
  tx_chainId :: nat
  tx_gasLimit :: int
  tx_value :: "int option"
  tx_nonce :: nat
  tx_data :: "string option"
  tx_gasPrice :: "int option"
  tx_maxFeePerGas :: "int option"
  tx_maxPriorityFeePerGas :: "int option"
  tx_type :: "nat option"

text \<open>
  What \<open>provider.waitForTransaction(txHash, 1, 60 * 1000)\<close> can do: return a receipt whose
  \<open>status\<close> is a number or \<open>undefined\<close>, return \<open>null\<close>, or reject (the one-minute timeout).
\<close>

datatype wait_result = Receipt "nat option" | NullReceipt | WaitRejected

text \<open>The entries of \<open>waitErrors\<close>: the two errors the loop raises itself and the two it catches.\<close>

datatype waitError =
  NotFetchedInTime string
  | FailedDuringExecution string
  | WaitError string
  | NoAccountAt nat

record distributeAccount =
  missingFunds :: int
  address :: string
  mnemonicIndex :: nat

text \<open>
  \<open>walletAddress i\<close> is the address of \<open>Wallet.fromMnemonic(mnemonic, m/44'/60'/0'/0/i)\<close>;
  index \<open>0\<close> is the root wallet that funds the others. The remaining fields are the answers
  of the node. \<open>Heap\<close> comes from the \<open>heap\<close> package and is built without a comparator: the
  model keeps the pushed entries in a list, \<open>size()\<close> is its length, and \<open>heapOrder\<close> maps the
  entries in push order to the order in which successive \<open>pop()\<close> calls return them.
\<close>

record env =
  walletAddress :: "nat \<Rightarrow> string"
  getBalance :: "string \<Rightarrow> int"
  getGasPrice :: int
  getChainId :: nat
  getTransactionCount :: "string \<Rightarrow> nat"
  estimateGas :: "int \<Rightarrow> int"
  httpPost :: "TransactionRequest post"
  waitForTransaction :: "string \<Rightarrow> wait_result"
  heapOrder :: "distributeAccount list \<Rightarrow> distributeAccount list"

text \<open>The \<open>Runtime\<close> interface as the native distributor uses it.\<close>

record runtime =
  GetValue :: int
  EstimateBaseTx :: int
  GetGasPrice :: int

text \<open>
  The \<open>TokenRuntime\<close> interface as the token distributor uses it, for an initialised
  runtime (\<open>index.ts\<close> initialises it before the distributor is built).
\<close>

record tokenRuntime =
  GetTransferValue :: int
  GetTokenBalance :: "string \<Rightarrow> int"
  GetSupplierBalance :: int
  CreateFundTransaction :: "string \<Rightarrow> int \<Rightarrow> TransactionRequest"
  tokenEstimateBaseTx :: int

text \<open>\<open>BigNumber.div\<close> truncates towards zero.\<close>

definition bn_div :: "int \<Rightarrow> int \<Rightarrow> int" where
  "bn_div a b = sgn a * sgn b * (\<bar>a\<bar> div \<bar>b\<bar>)"

section \<open>Distributor (native currency)\<close>

record runtimeCosts =
  accDistributionCost :: int
  subAccount :: int

definition calculateRuntimeCosts :: "env \<Rightarrow> runtime \<Rightarrow> int \<Rightarrow> runtimeCosts" where
  "calculateRuntimeCosts w runtimeEstimator totalTx =
     (let inherentValue = GetValue runtimeEstimator;
          baseTxEstimate = EstimateBaseTx runtimeEstimator;
          baseGasPrice = GetGasPrice runtimeEstimator;
          baseTxCost = (baseGasPrice * baseTxEstimate + inherentValue) * 10;
          subAccountCost = totalTx * baseTxCost;
          singleDistributionCost = estimateGas w subAccountCost
      in \<lparr>accDistributionCost = singleDistributionCost, subAccount = subAccountCost\<rparr>)"

text \<open>
  The loop of \<open>findAccountsForDistribution\<close> over \<open>i = 1, ..., requestedSubAccounts\<close>, with
  the heap of short accounts (in push order) and \<open>readyMnemonicIndexes\<close> as its state.
\<close>

fun findAccountsLoop ::
  "env \<Rightarrow> int \<Rightarrow> nat list \<Rightarrow> distributeAccount list \<times> nat list
     \<Rightarrow> distributeAccount list \<times> nat list" where
  "findAccountsLoop w singleRunCost [] (shortAddresses, ready) = (shortAddresses, ready)"
| "findAccountsLoop w singleRunCost (i # rest) (shortAddresses, ready) =
     (let balance = getBalance w (walletAddress w i) in
      if balance < singleRunCost then
        findAccountsLoop w singleRunCost rest
          (shortAddresses @
             [\<lparr>missingFunds = singleRunCost - balance, address = walletAddress w i,
               mnemonicIndex = i\<rparr>],
           ready)
      else findAccountsLoop w singleRunCost rest (shortAddresses, ready @ [i]))"

definition findAccountsForDistribution ::
  "env \<Rightarrow> int \<Rightarrow> nat \<Rightarrow> nat list \<Rightarrow> distributeAccount list \<times> nat list" where
  "findAccountsForDistribution w singleRunCost requestedSubAccounts readyMnemonicIndexes =
     findAccountsLoop w singleRunCost [1 ..< Suc requestedSubAccounts] ([], readyMnemonicIndexes)"

text \<open>
  The \<open>while\<close> loop of \<open>getFundableAccounts\<close>. \<open>initialSet\<close> is the heap, given as the list of
  its entries in the order \<open>pop()\<close> returns them.
\<close>

fun fundableLoop ::
  "int \<Rightarrow> int \<Rightarrow> distributeAccount list \<Rightarrow> distributeAccount list \<Rightarrow> distributeAccount list" where
  "fundableLoop cost distributorBalance [] accountsToFund = accountsToFund"
| "fundableLoop cost distributorBalance (acc # initialSet) accountsToFund =
     (if distributorBalance > cost then
        fundableLoop cost (distributorBalance - missingFunds acc) initialSet (accountsToFund @ [acc])
      else accountsToFund)"

text \<open>\<open>rootBalance\<close> is the answer to \<open>this.ethWallet.getBalance()\<close>.\<close>

definition getFundableAccounts ::
  "runtimeCosts \<Rightarrow> int \<Rightarrow> distributeAccount list \<Rightarrow> error + distributeAccount list" where
  "getFundableAccounts costs rootBalance initialSet =
     (let accountsToFund = fundableLoop (accDistributionCost costs) rootBalance initialSet []
      in if length accountsToFund = 0 then Inl errNotEnoughFunds else Inr accountsToFund)"

text \<open>The first loop of \<open>fundAccounts\<close>: one transfer per account, nonces counting up.\<close>

fun buildFundTxs ::
  "string \<Rightarrow> nat \<Rightarrow> int \<Rightarrow> distributeAccount list \<Rightarrow> nat \<Rightarrow> TransactionRequest list" where
  "buildFundTxs root chainID gasPrice [] nonce = []"
| "buildFundTxs root chainID gasPrice (acc # accounts) nonce =
     \<lparr>tx_from = Some root, tx_to = address acc, tx_chainId = chainID, tx_gasLimit = 21000,
      tx_value = Some (missingFunds acc), tx_nonce = nonce, tx_data = None,
      tx_gasPrice = Some (bn_div (gasPrice * 150) 100), tx_maxFeePerGas = None,
      tx_maxPriorityFeePerGas = None, tx_type = None\<rparr>
     # buildFundTxs root chainID gasPrice accounts (Suc nonce)"

text \<open>
  The body of the second loop of \<open>fundAccounts\<close> (the same text in both distributors): the
  \<open>try\<close> block around the wait for the receipt of \<open>txHashes[i]\<close>, and its \<open>catch\<close>. Reading
  \<open>accounts[i].mnemonicIndex\<close> beyond the end of \<open>accounts\<close> raises a \<open>TypeError\<close>, which the
  \<open>catch\<close> records like the others.
\<close>

definition checkReceipt ::
  "(string \<Rightarrow> wait_result) \<Rightarrow> distributeAccount list \<Rightarrow> string \<Rightarrow> nat
     \<Rightarrow> nat list \<times> waitError list \<Rightarrow> nat list \<times> waitError list" where
  "checkReceipt wait accounts txHash i st =
     (case st of (ready, waitErrors) \<Rightarrow>
        (case wait txHash of
           WaitRejected \<Rightarrow> (ready, waitErrors @ [WaitError txHash])
         | NullReceipt \<Rightarrow> (ready, waitErrors @ [NotFetchedInTime txHash])
         | Receipt status \<Rightarrow>
             if status \<noteq> None \<and> status = Some 0
             then (ready, waitErrors @ [FailedDuringExecution txHash])
             else if i < length accounts
             then (ready @ [mnemonicIndex (accounts ! i)], waitErrors)
             else (ready, waitErrors @ [NoAccountAt i])))"

text \<open>The loop \<open>for (let i = 0; i < txHashes.length; i++)\<close>.\<close>

fun waitLoop ::
  "(string \<Rightarrow> wait_result) \<Rightarrow> distributeAccount list \<Rightarrow> string list \<Rightarrow> nat
     \<Rightarrow> nat list \<times> waitError list \<Rightarrow> nat list \<times> waitError list" where
  "waitLoop wait accounts [] i st = st"
| "waitLoop wait accounts (txHash # rest) i st =
     waitLoop wait accounts rest (Suc i) (checkReceipt wait accounts txHash i st)"

text \<open>
  \<open>fundAccounts\<close> returns the new \<open>readyMnemonicIndexes\<close> and the logged \<open>waitErrors\<close>. The
  receipt loop runs on \<open>txHashes\<close> as \<open>batchTransactions\<close> returned it; nothing in
  \<open>fundAccounts\<close> waits for a retry in the background, and the model follows the run in
  which none of them appends before the loop has ended.
\<close>

definition fundAccounts ::
  "env \<Rightarrow> nat \<Rightarrow> distributeAccount list \<Rightarrow> nat list
     \<Rightarrow> (error + nat list \<times> waitError list) option" where
  "fundAccounts w batchSize accounts readyMnemonicIndexes =
     (let root = walletAddress w 0;
          gasPrice = getGasPrice w;
          chainID = getChainId w;
          nonce = getTransactionCount w root;
          signedTxs = buildFundTxs root chainID gasPrice accounts nonce
      in case batchTransactions signedTxs batchSize (httpPost w) of
           None \<Rightarrow> None
         | Some (Inl e) \<Rightarrow> Some (Inl e)
         | Some (Inr (sent, background)) \<Rightarrow>
             Some (Inr (waitLoop (waitForTransaction w) accounts (txHashes sent) 0
                          (readyMnemonicIndexes, []))))"

definition distribute ::
  "env \<Rightarrow> runtime \<Rightarrow> nat \<Rightarrow> int \<Rightarrow> nat \<Rightarrow> nat list \<Rightarrow> (error + nat list) option" where
  "distribute w runtimeEstimator requestedSubAccounts totalTx batchSize readyMnemonicIndexes =
     (let baseCosts = calculateRuntimeCosts w runtimeEstimator totalTx;
          (shortAddresses, ready) =
             findAccountsForDistribution w (subAccount baseCosts) requestedSubAccounts
               readyMnemonicIndexes;
          initialAccCount = length shortAddresses
      in if initialAccCount = 0 then Some (Inr ready)
         else case getFundableAccounts baseCosts (getBalance w (walletAddress w 0))
                     (heapOrder w shortAddresses) of
                Inl e \<Rightarrow> Some (Inl e)
              | Inr fundableAccounts \<Rightarrow>
                  (case fundAccounts w batchSize fundableAccounts ready of
                     None \<Rightarrow> None
                   | Some (Inl e) \<Rightarrow> Some (Inl e)
                   | Some (Inr (ready', waitErrors)) \<Rightarrow> Some (Inr ready')))"

section \<open>TokenDistributor\<close>

text \<open>
  The functions of \<open>TokenDistributor\<close> carry the prefix \<open>token_\<close> where \<open>Distributor\<close> has a
  function of the same name.
\<close>

record tokenRuntimeCosts =
  totalCost :: int
  tokenSubAccount :: int

text \<open>
  \<open>subAccountCost = Math.ceil(totalCost / readyMnemonicIndexes.length)\<close>. With no ready
  index the quotient is \<open>Infinity\<close> or \<open>NaN\<close>, modelled as \<open>None\<close>.
\<close>

definition token_calculateRuntimeCosts :: "tokenRuntime \<Rightarrow> int \<Rightarrow> nat \<Rightarrow> tokenRuntimeCosts option" where
  "token_calculateRuntimeCosts tokenRt totalTx numReady =
     (let transferValue = GetTransferValue tokenRt;
          totalCost = transferValue * totalTx
      in if numReady = 0 then None
         else Some \<lparr>totalCost = totalCost,
                    tokenSubAccount = - ((- totalCost) div int numReady)\<rparr>)"

text \<open>
  The loop of \<open>findAccountsForDistribution\<close> over \<open>readyMnemonicIndexes\<close>. It has no \<open>else\<close>
  branch: \<open>readyMnemonicIndexes\<close> is not changed.
\<close>

fun token_findAccountsLoop ::
  "env \<Rightarrow> tokenRuntime \<Rightarrow> int \<Rightarrow> nat list \<Rightarrow> distributeAccount list \<Rightarrow> distributeAccount list" where
  "token_findAccountsLoop w tokenRt singleRunCost [] shortAddresses = shortAddresses"
| "token_findAccountsLoop w tokenRt singleRunCost (index # rest) shortAddresses =
     (let balance = GetTokenBalance tokenRt (walletAddress w index) in
      if balance < singleRunCost then
        token_findAccountsLoop w tokenRt singleRunCost rest
          (shortAddresses @
             [\<lparr>missingFunds = singleRunCost - balance, address = walletAddress w index,
               mnemonicIndex = index\<rparr>])
      else token_findAccountsLoop w tokenRt singleRunCost rest shortAddresses)"

text \<open>
  The scan returns the heap; the second component is the field \<open>readyMnemonicIndexes\<close> of
  the distributor after the scan, which the scan has not touched.
\<close>

definition token_findAccountsForDistribution ::
  "env \<Rightarrow> tokenRuntime \<Rightarrow> int \<Rightarrow> nat list \<Rightarrow> distributeAccount list \<times> nat list" where
  "token_findAccountsForDistribution w tokenRt singleRunCost readyMnemonicIndexes =
     (token_findAccountsLoop w tokenRt singleRunCost readyMnemonicIndexes [],
      readyMnemonicIndexes)"

fun token_fundableLoop ::
  "int \<Rightarrow> int \<Rightarrow> distributeAccount list \<Rightarrow> distributeAccount list \<Rightarrow> distributeAccount list" where
  "token_fundableLoop cost distributorBalance [] accountsToFund = accountsToFund"
| "token_fundableLoop cost distributorBalance (acc # initialSet) accountsToFund =
     (if distributorBalance > cost then
        token_fundableLoop cost (distributorBalance - missingFunds acc) initialSet
          (accountsToFund @ [acc])
      else accountsToFund)"

text \<open>\<open>supplierBalance\<close> is the answer to \<open>this.tokenRuntime.GetSupplierBalance()\<close>.\<close>

definition token_getFundableAccounts ::
  "tokenRuntimeCosts \<Rightarrow> int \<Rightarrow> distributeAccount list \<Rightarrow> error + distributeAccount list" where
  "token_getFundableAccounts costs supplierBalance initialSet =
     (let accountsToFund = token_fundableLoop (tokenSubAccount costs) supplierBalance initialSet []
      in if length accountsToFund = 0 then Inl errNotEnoughFunds else Inr accountsToFund)"

fun token_buildFundTxs ::
  "tokenRuntime \<Rightarrow> nat \<Rightarrow> int \<Rightarrow> int \<Rightarrow> distributeAccount list \<Rightarrow> nat \<Rightarrow> TransactionRequest list" where
  "token_buildFundTxs tokenRt chainID gasPrice gasEstimation [] nonce = []"
| "token_buildFundTxs tokenRt chainID gasPrice gasEstimation (acc # accounts) nonce =
     (CreateFundTransaction tokenRt (address acc) (missingFunds acc))
       \<lparr>tx_gasLimit := bn_div (gasEstimation * 150) 100,
        tx_gasPrice := Some (bn_div (gasPrice * 150) 100),
        tx_nonce := nonce, tx_chainId := chainID\<rparr>
     # token_buildFundTxs tokenRt chainID gasPrice gasEstimation accounts (Suc nonce)"

text \<open>\<open>fundAccounts\<close> of the token distributor first clears \<open>readyMnemonicIndexes\<close>.\<close>

definition token_fundAccounts ::
  "env \<Rightarrow> tokenRuntime \<Rightarrow> nat \<Rightarrow> distributeAccount list
     \<Rightarrow> (error + nat list \<times> waitError list) option" where
  "token_fundAccounts w tokenRt batchSize accounts =
     (let gasEstimation = tokenEstimateBaseTx tokenRt;
          gasPrice = getGasPrice w;
          chainID = getChainId w;
          nonce = getTransactionCount w (walletAddress w 0);
          signedTxs = token_buildFundTxs tokenRt chainID gasPrice gasEstimation accounts nonce
      in case batchTransactions signedTxs batchSize (httpPost w) of
           None \<Rightarrow> None
         | Some (Inl e) \<Rightarrow> Some (Inl e)
         | Some (Inr (sent, background)) \<Rightarrow>
             Some (Inr (waitLoop (waitForTransaction w) accounts (txHashes sent) 0 ([], []))))"

text \<open>
  With no ready index the cost is not a finite number; the scan then visits nothing, finds
  no short account, and \<open>distributeTokens\<close> returns the (empty) list at once.
\<close>

definition distributeTokens ::
  "env \<Rightarrow> tokenRuntime \<Rightarrow> int \<Rightarrow> nat \<Rightarrow> nat list \<Rightarrow> (error + nat list) option" where
  "distributeTokens w tokenRt totalTx batchSize readyMnemonicIndexes =
     (case token_calculateRuntimeCosts tokenRt totalTx (length readyMnemonicIndexes) of
        None \<Rightarrow> Some (Inr readyMnemonicIndexes)
      | Some baseCosts \<Rightarrow>
          (let (shortAddresses, ready) =
                 token_findAccountsForDistribution w tokenRt (tokenSubAccount baseCosts)
                   readyMnemonicIndexes;
               initialAccCount = length shortAddresses
           in if initialAccCount = 0 then Some (Inr ready)
              else case token_getFundableAccounts baseCosts (GetSupplierBalance tokenRt)
                          (heapOrder w shortAddresses) of
                     Inl e \<Rightarrow> Some (Inl e)
                   | Inr fundableAccounts \<Rightarrow>
                       (case token_fundAccounts w tokenRt batchSize fundableAccounts of
                          None \<Rightarrow> None
                        | Some (Inl e) \<Rightarrow> Some (Inl e)
                        | Some (Inr (ready', waitErrors)) \<Rightarrow> Some (Inr ready'))))"

section \<open>Signer and EOA runtime\<close>

text \<open>
  A \<open>senderAccount\<close>; its \<open>wallet\<close> is represented by the wallet's address. The field
  \<open>mnemonicIndex\<close> is renamed, \<open>distributeAccount\<close> has one of that name.
\<close>

record senderAccount =
  sender_mnemonicIndex :: nat
  nonce :: nat
  wallet :: string

definition incrNonce :: "senderAccount \<Rightarrow> senderAccount" where
  "incrNonce a = a\<lparr>nonce := nonce a + 1\<rparr>"

definition getNonce :: "senderAccount \<Rightarrow> nat" where
  "getNonce a = nonce a"

definition getAddress :: "senderAccount \<Rightarrow> string" where
  "getAddress a = wallet a"

text \<open>
  \<open>Signer.getSenderAccounts\<close>: one account for each of the first \<open>walletsToInit\<close> indexes,
  its nonce the transaction count the node reports for its address.
\<close>

definition getSenderAccounts :: "env \<Rightarrow> nat list \<Rightarrow> nat \<Rightarrow> senderAccount list" where
  "getSenderAccounts w accountIndexes numTxs =
     (let walletsToInit = (if length accountIndexes > numTxs then numTxs else length accountIndexes)
      in map (\<lambda>accIndex.
                \<lparr>sender_mnemonicIndex = accIndex,
                 nonce = getTransactionCount w (walletAddress w accIndex),
                 wallet = walletAddress w accIndex\<rparr>)
             (take walletsToInit accountIndexes))"

text \<open>
  A field of \<open>FeeData\<close> is a number, \<open>null\<close> or \<open>undefined\<close>. The source tests for
  \<open>undefined\<close> only; \<open>BigNumber.from(null)\<close> throws.
\<close>

datatype fee = Undefined | Null | Fee int

record FeeData =
  maxFeePerGas :: fee
  maxPriorityFeePerGas :: fee

record EOARuntime =
  gasEstimation :: int
  gasPrice :: int
  defaultValue :: int
  feeData :: "FeeData option"
  chainID :: nat

definition BigNumber_from :: "fee \<Rightarrow> error + int" where
  "BigNumber_from v = (case v of Fee n \<Rightarrow> Inr n | _ \<Rightarrow> Inl InvalidBigNumber)"

definition createTransferTransaction ::
  "EOARuntime \<Rightarrow> senderAccount \<Rightarrow> senderAccount \<Rightarrow> int \<Rightarrow> bool \<Rightarrow> error + TransactionRequest" where
  "createTransferTransaction rt sender receiver gasPrice' dynamic =
     (let transaction =
            \<lparr>tx_from = Some (getAddress sender), tx_to = getAddress receiver,
             tx_chainId = chainID rt, tx_gasLimit = gasEstimation rt,
             tx_value = Some (defaultValue rt), tx_nonce = getNonce sender, tx_data = None,
             tx_gasPrice = None, tx_maxFeePerGas = None, tx_maxPriorityFeePerGas = None,
             tx_type = None\<rparr>
      in if dynamic then
           (case feeData rt of
              None \<Rightarrow> Inl DynamicFeeDataNotAvailable
            | Some fd \<Rightarrow>
                if maxFeePerGas fd = Undefined \<or> maxPriorityFeePerGas fd = Undefined
                then Inl DynamicFeeDataNotAvailable
                else
                  (case BigNumber_from (maxFeePerGas fd) of
                     Inl e \<Rightarrow> Inl e
                   | Inr mf \<Rightarrow>
                       (case BigNumber_from (maxPriorityFeePerGas fd) of
                          Inl e \<Rightarrow> Inl e
                        | Inr mp \<Rightarrow>
                            Inr (transaction\<lparr>tx_maxFeePerGas := Some (mf * 2),
                                   tx_maxPriorityFeePerGas := Some (mp * 2),
                                   tx_type := Some 2\<rparr>))))
         else Inr (transaction\<lparr>tx_gasPrice := Some gasPrice'\<rparr>))"

text \<open>
  The inner loop of \<open>EOARuntime.ConstructTransactions\<close>, over \<open>j\<close>, for the sender at index
  \<open>i\<close>. The accounts are objects in an array; \<open>sender.incrNonce()\<close> changes the object at
  index \<open>i\<close>, and the receiver is read from the same array.
\<close>

function senderLoop ::
  "EOARuntime \<Rightarrow> bool \<Rightarrow> nat \<Rightarrow> nat \<Rightarrow> nat \<Rightarrow> nat \<Rightarrow> senderAccount list \<Rightarrow> TransactionRequest list
     \<Rightarrow> error + senderAccount list \<times> TransactionRequest list" where
  "senderLoop rt dynamic numAccounts i j numOfTxPerAccount accounts txs =
     (if j < numOfTxPerAccount then
        (let sender = accounts ! i;
             receiverIndex = (i + j) mod numAccounts;
             receiver = accounts ! receiverIndex
         in case createTransferTransaction rt sender receiver (gasPrice rt) dynamic of
              Inl e \<Rightarrow> Inl e
            | Inr tx \<Rightarrow>
                senderLoop rt dynamic numAccounts i (Suc j) numOfTxPerAccount
                  (accounts[i := incrNonce sender]) (txs @ [tx]))
      else Inr (accounts, txs))"
  by pat_completeness auto
termination
  by (relation "measure (\<lambda>(rt, dynamic, numAccounts, i, j, numOfTxPerAccount, accounts, txs).
                 numOfTxPerAccount - j)") auto

text \<open>
  The outer loop, over \<open>i < numAccounts\<close> with \<open>numAccounts = accounts.length\<close>, so that
  \<open>accounts ! i\<close> is always within the array. \<open>transactions\<close> is a \<open>Map\<close> in insertion order;
  \<open>Map.set\<close> replaces the value of a key already present and appends a new key, as
  \<open>AList.update\<close> does.
\<close>

function accountsLoop ::
  "EOARuntime \<Rightarrow> bool \<Rightarrow> nat \<Rightarrow> nat \<Rightarrow> nat \<Rightarrow> senderAccount list
     \<Rightarrow> (string \<times> TransactionRequest list) list
     \<Rightarrow> error + senderAccount list \<times> (string \<times> TransactionRequest list) list" where
  "accountsLoop rt dynamic numAccounts i numOfTxPerAccount accounts transactions =
     (if i < numAccounts then
        (case senderLoop rt dynamic numAccounts i 0 numOfTxPerAccount accounts [] of
           Inl e \<Rightarrow> Inl e
         | Inr (accounts', txs) \<Rightarrow>
             accountsLoop rt dynamic numAccounts (Suc i) numOfTxPerAccount accounts'
               (AList.update (getAddress (accounts' ! i)) txs transactions))
      else Inr (accounts, transactions))"
  by pat_completeness auto
termination
  by (relation "measure (\<lambda>(rt, dynamic, numAccounts, i, numOfTxPerAccount, accounts, transactions).
                 numAccounts - i)") auto

text \<open>
  \<open>ConstructTransactions\<close> returns the map; the model also returns the accounts, whose
  nonces the call has advanced.
\<close>

definition ConstructTransactions ::
  "EOARuntime \<Rightarrow> senderAccount list \<Rightarrow> nat \<Rightarrow> bool
     \<Rightarrow> error + senderAccount list \<times> (string \<times> TransactionRequest list) list" where
  "ConstructTransactions rt accounts numOfTxPerAccount dynamic =
     accountsLoop rt dynamic (length accounts) 0 numOfTxPerAccount accounts []"

section \<open>Notions used in the statements\<close>

text \<open>The groups of a list cut every \<open>b\<close> elements: group \<open>k\<close> of \<open>m\<close> groups.\<close>

definition slices :: "nat \<Rightarrow> nat \<Rightarrow> 'a list \<Rightarrow> 'a list list" where
  "slices b m xs = map (\<lambda>k. take b (drop (k * b) xs)) [0..<m]"

text \<open>The number of transactions handed to the per-sender dispatch.\<close>

definition submitted :: "(string \<times> 'p list) list \<Rightarrow> nat" where
  "submitted signedTxs = sum_list (map (\<lambda>(address, txs). length txs) signedTxs)"

text \<open>The number of collected identifiers plus the number of collected error strings.\<close>

definition answered :: "collected \<Rightarrow> nat" where
  "answered st = length (txHashes st) + length (batchErrors st)"

text \<open>
  The number of transactions in the requests whose retry runs in the background, and the
  fact that every attempt counted for such a request was a failure.
\<close>

definition pending :: "'p retry list \<Rightarrow> nat" where
  "pending background = sum_list (map (\<lambda>(singleRequests, attempt). length singleRequests) background)"

definition failedSoFar :: "'p post \<Rightarrow> 'p retry list \<Rightarrow> bool" where
  "failedSoFar post background =
     (\<forall>(singleRequests, attempt) \<in> set background.
         \<forall>j < attempt. post singleRequests j = TransportFailure)"

text \<open>A node that answers every delivered call with one response element per request.\<close>

definition wellFormed :: "'p post \<Rightarrow> bool" where
  "wellFormed post = (\<forall>singleRequests attempt content.
      post singleRequests attempt = Response content \<longrightarrow> length content = length singleRequests)"

text \<open>The tracked source balance after the given entries have been allocated.\<close>

definition tracked :: "int \<Rightarrow> distributeAccount list \<Rightarrow> int" where
  "tracked balance allocated = balance - sum_list (map missingFunds allocated)"

text \<open>
  The token allocation loop as the specification words it: it goes on while the tracked
  balance is positive. It is compared with \<open>token_fundableLoop\<close>, the loop of the source.
\<close>

fun spec_token_fundableLoop ::
  "int \<Rightarrow> distributeAccount list \<Rightarrow> distributeAccount list \<Rightarrow> distributeAccount list" where
  "spec_token_fundableLoop distributorBalance [] accountsToFund = accountsToFund"
| "spec_token_fundableLoop distributorBalance (acc # initialSet) accountsToFund =
     (if distributorBalance > 0 then
        spec_token_fundableLoop (distributorBalance - missingFunds acc) initialSet
          (accountsToFund @ [acc])
      else accountsToFund)"

text \<open>
  The token scan as the specification words it, the same for both distributors: an index
  whose balance is below the required cost gets an entry, any other index is marked ready.
  It is compared with \<open>token_findAccountsForDistribution\<close>, the scan of the source.
\<close>

fun spec_token_findAccountsLoop ::
  "env \<Rightarrow> tokenRuntime \<Rightarrow> int \<Rightarrow> nat list \<Rightarrow> distributeAccount list \<times> nat list
     \<Rightarrow> distributeAccount list \<times> nat list" where
  "spec_token_findAccountsLoop w tokenRt singleRunCost [] (shortAddresses, ready) =
     (shortAddresses, ready)"
| "spec_token_findAccountsLoop w tokenRt singleRunCost (index # rest) (shortAddresses, ready) =
     (let balance = GetTokenBalance tokenRt (walletAddress w index) in
      if balance < singleRunCost then
        spec_token_findAccountsLoop w tokenRt singleRunCost rest
          (shortAddresses @
             [\<lparr>missingFunds = singleRunCost - balance, address = walletAddress w index,
               mnemonicIndex = index\<rparr>],
           ready)
      else spec_token_findAccountsLoop w tokenRt singleRunCost rest (shortAddresses, ready @ [index]))"

text \<open>The shortfall entry of account \<open>i\<close>: what it misses is the required cost minus its balance.\<close>

definition shortfallEntry :: "env \<Rightarrow> int \<Rightarrow> int \<Rightarrow> nat \<Rightarrow> distributeAccount" where
  "shortfallEntry w required balance i =
     \<lparr>missingFunds = required - balance, address = walletAddress w i, mnemonicIndex = i\<rparr>"

subsection \<open>Concrete inputs\<close>

text \<open>
  A node that answers the transfer to \<open>0xA\<close> with an error element (the same
  transaction is still pending from an earlier run, say) and every other transaction with
  its hash, and whose receipts all report success.
\<close>

definition rejectTransferToA :: "TransactionRequest post" where
  "rejectTransferToA singleRequests attempt =
     Response (map (\<lambda>(id, tx). if tx_to tx = ''0xA'' then RpcError ''already known''
                                else RpcResult (''hash-of-transfer-to-'' @ tx_to tx))
                   singleRequests)"

definition exampleNode :: env where
  "exampleNode =
     \<lparr>walletAddress = (\<lambda>i. if i = 0 then ''0xROOT'' else if i = 1 then ''0xA'' else ''0xB''),
      getBalance = (\<lambda>a. if a = ''0xROOT'' then 30000 else if a = ''0xB'' then 500000 else 0),
      getGasPrice = 1,
      getChainId = 100,
      getTransactionCount = (\<lambda>a. if a = ''0xROOT'' then 7 else if a = ''0xA'' then 3 else 5),
      estimateGas = (\<lambda>v. 21000),
      httpPost = rejectTransferToA,
      waitForTransaction = (\<lambda>h. Receipt (Some 1)),
      heapOrder = (\<lambda>xs. xs)\<rparr>"

text \<open>The same node with every balance at zero.\<close>

definition emptyNode :: env where
  "emptyNode = exampleNode\<lparr>getBalance := (\<lambda>a. 0)\<rparr>"

definition exampleRuntime :: runtime where
  "exampleRuntime = \<lparr>GetValue = 100, EstimateBaseTx = 21000, GetGasPrice = 1\<rparr>"

definition exampleTokenRuntime :: tokenRuntime where
  "exampleTokenRuntime =
     \<lparr>GetTransferValue = 1,
      GetTokenBalance = (\<lambda>a. if a = ''0xB'' then 12 else 0),
      GetSupplierBalance = 5,
      CreateFundTransaction = (\<lambda>to amount.
         \<lparr>tx_from = None, tx_to = ''0xTOKEN'', tx_chainId = 0, tx_gasLimit = 0, tx_value = None,
          tx_nonce = 0, tx_data = Some to, tx_gasPrice = None, tx_maxFeePerGas = None,
          tx_maxPriorityFeePerGas = None, tx_type = None\<rparr>),
      tokenEstimateBaseTx = 50000\<rparr>"

text \<open>The same token runtime with a supplier that holds 100 tokens.\<close>

definition suppliedTokenRuntime :: tokenRuntime where
  "suppliedTokenRuntime = exampleTokenRuntime\<lparr>GetSupplierBalance := 100\<rparr>"

text \<open>
  The address a funding transaction funds: the receiver of a native transfer, or the
  address in the data of a token transfer built by \<open>exampleTokenRuntime\<close>.
\<close>

definition fundedAddress :: "TransactionRequest \<Rightarrow> string" where
  "fundedAddress tx = (case tx_data tx of None \<Rightarrow> tx_to tx | Some receiver \<Rightarrow> receiver)"

text \<open>
  A node that answers the funding of \<open>0xA\<close> with an error element and every other
  transaction with a hash that names the funded address. It has one receipt, for the
  funding of \<open>0xB\<close>, and that receipt carries no status.
\<close>

definition rejectFundingOfA :: "TransactionRequest post" where
  "rejectFundingOfA singleRequests attempt =
     Response (map (\<lambda>(id, tx). if fundedAddress tx = ''0xA'' then RpcError ''already known''
                                else RpcResult (''hash-of-funding-'' @ fundedAddress tx))
                   singleRequests)"

definition statuslessNode :: env where
  "statuslessNode =
     exampleNode\<lparr>httpPost := rejectFundingOfA,
                  waitForTransaction :=
                    (\<lambda>h. if h = ''hash-of-funding-0xB'' then Receipt None else NullReceipt)\<rparr>"

definition exampleEOA :: EOARuntime where
  "exampleEOA =
     \<lparr>gasEstimation = 21000, gasPrice = 5, defaultValue = 100, feeData = None, chainID = 100\<rparr>"

definition accountA :: distributeAccount where
  "accountA = \<lparr>missingFunds = 211000, address = ''0xA'', mnemonicIndex = 1\<rparr>"

definition accountB :: distributeAccount where
  "accountB = \<lparr>missingFunds = 211000, address = ''0xB'', mnemonicIndex = 2\<rparr>"

text \<open>A node whose first answer to every request is a transport failure.\<close>

definition failsOnce :: "string post" where
  "failsOnce singleRequests attempt =
     (if attempt = 0 then TransportFailure
      else Response (map (\<lambda>(id, tx). RpcResult (''hash-of-'' @ tx)) singleRequests))"

section \<open>Properties of the Batcher\<close>

subsection \<open>The two loops of generateBatches\<close>

lemma initBatches_Finite:
  "i \<le> k \<Longrightarrow> initBatches i (Finite k) bs = Some (bs @ replicate (k - i) [])"
proof (induction "k - i" arbitrary: i bs)
  case 0
  then show ?case by (subst initBatches.simps) simp
next
  case (Suc d)
  then have lt: "i < k" and d: "d = k - Suc i" by auto
  have "initBatches i (Finite k) bs = initBatches (Suc i) (Finite k) (bs @ [[]])"
    using lt by (subst initBatches.simps) simp
  also have "\<dots> = Some ((bs @ [[]]) @ replicate (k - Suc i) [])"
    using Suc.hyps(1) [OF d] lt by simp
  also have "(bs @ [[]]) @ replicate (k - Suc i) [] = bs @ replicate (k - i) []"
  proof -
    have "k - i = Suc (k - Suc i)" using lt by simp
    then show ?thesis by simp
  qed
  finally show ?case .
qed

lemma initBatches_NaN: "initBatches i NaN bs = Some bs"
  by (subst initBatches.simps) simp

lemma initBatches_Infinity_aux:
  "initBatches i nb bs = Some r \<Longrightarrow> nb \<noteq> Infinity"
proof (rule initBatches.raw_induct [where P = "\<lambda>i nb bs r. nb \<noteq> Infinity"])
  fix f :: "nat \<Rightarrow> jsnum \<Rightarrow> 'a list list \<Rightarrow> 'a list list option" and i nb bs r
  assume ih: "\<And>i nb bs r. f i nb bs = Some r \<Longrightarrow> nb \<noteq> Infinity"
    and step: "(if js_less i nb then f (Suc i) nb (bs @ [[]]) else Some bs) = Some r"
  show "nb \<noteq> Infinity"
  proof (cases "js_less i nb")
    case True
    with step ih show ?thesis by simp
  next
    case False
    then show ?thesis by auto
  qed
qed

lemma initBatches_Infinity: "initBatches i Infinity bs = None"
  using initBatches_Infinity_aux [of i Infinity bs] by (cases "initBatches i Infinity bs") auto



text \<open>
  While the items are consumed, the batches are the slices of the items consumed so far,
  and \<open>currentBatch\<close> is their number divided by the batch size.
\<close>

lemma length_slices [simp]: "length (slices b m xs) = m"
  by (simp add: slices_def)

lemma nth_slices: "k < m \<Longrightarrow> slices b m xs ! k = take b (drop (k * b) xs)"
  by (simp add: slices_def)

lemma slices_snoc:
  assumes b: "0 < b" and cur: "length ds div b < m"
  shows "(slices b m ds)[length ds div b := slices b m ds ! (length ds div b) @ [x]]
           = slices b m (ds @ [x])"
proof (rule nth_equalityI)
  show "length ((slices b m ds)[length ds div b := slices b m ds ! (length ds div b) @ [x]])
          = length (slices b m (ds @ [x]))" by simp
next
  fix k
  assume "k < length ((slices b m ds)[length ds div b := slices b m ds ! (length ds div b) @ [x]])"
  then have km: "k < m" by simp
  let ?c = "length ds div b"
  have cb: "?c * b \<le> length ds" by simp
  have rem: "length ds - ?c * b < b"
    using b by (metis minus_div_mult_eq_mod mod_less_divisor)
  consider (lt) "k < ?c" | (eq) "k = ?c" | (gt) "?c < k" by linarith
  then show "(slices b m ds)[?c := slices b m ds ! ?c @ [x]] ! k = slices b m (ds @ [x]) ! k"
  proof cases
    case lt
    then have "Suc k \<le> ?c" by simp
    then have "Suc k * b \<le> ?c * b" by (rule mult_le_mono1)
    moreover have "Suc k * b = k * b + b" by simp
    ultimately have full: "k * b + b \<le> length ds" using cb by linarith
    then have "take b (drop (k * b) (ds @ [x])) = take b (drop (k * b) ds)" by simp
    with lt km show ?thesis by (simp add: nth_slices)
  next
    case eq
    have "take b (drop (?c * b) (ds @ [x])) = drop (?c * b) ds @ [x]"
      using cb rem by simp
    moreover have "take b (drop (?c * b) ds) = drop (?c * b) ds"
      using rem by simp
    ultimately show ?thesis using eq km by (simp add: nth_slices)
  next
    case gt
    then have "Suc ?c \<le> k" by simp
    then have "Suc ?c * b \<le> k * b" by (rule mult_le_mono1)
    moreover have "length ds < Suc ?c * b"
      using b by (simp add: dividend_less_div_times)
    ultimately have "Suc (length ds) \<le> k * b" by simp
    then have "drop (k * b) (ds @ [x]) = []" and "drop (k * b) ds = []" by simp_all
    with gt km show ?thesis by (simp add: nth_slices)
  qed
qed

lemma slices_cur_length:
  assumes b: "0 < b" and cur: "length ds div b < m"
  shows "length (slices b m (ds @ [x]) ! (length ds div b)) = Suc (length ds mod b)"
proof -
  let ?c = "length ds div b"
  have cb: "?c * b \<le> length ds" by simp
  have rem: "length ds - ?c * b = length ds mod b"
    by (simp add: minus_div_mult_eq_mod)
  have "length ds mod b < b" using b by simp
  then show ?thesis using cur cb rem by (simp add: nth_slices)
qed

lemma next_batch_index:
  assumes b: "0 < b"
  shows "(if Suc (n mod b) mod b = 0 then Suc (n div b) else n div b) = Suc n div b"
proof -
  have "Suc (n mod b) mod b = Suc n mod b" by (simp add: mod_Suc_eq)
  then show ?thesis by (simp add: div_Suc)
qed

lemma fillBatches_slices:
  assumes b: "0 < b"
  shows "length (ds @ rest) \<le> m * b \<Longrightarrow>
     fillBatches b rest (slices b m ds) (length ds div b) = Inr (slices b m (ds @ rest))"
proof (induction rest arbitrary: ds)
  case Nil
  then show ?case by simp
next
  case (Cons x rest)
  have "length ds < m * b" using Cons.prems by simp
  then have cur: "length ds div b < m"
    using b by (simp add: less_mult_imp_div_less)
  have step: "fillBatches b (x # rest) (slices b m ds) (length ds div b)
      = fillBatches b rest (slices b m (ds @ [x])) (length (ds @ [x]) div b)"
    using b cur slices_snoc [OF b cur, of x] slices_cur_length [OF b cur, of x]
      next_batch_index [OF b, of "length ds"]
    by (simp add: Let_def)
  have "length ((ds @ [x]) @ rest) \<le> m * b" using Cons.prems by simp
  from Cons.IH [OF this] step show ?case by simp
qed


lemma concat_slices: "concat (slices b m xs) = take (m * b) xs"
proof (induction m)
  case 0
  then show ?case by (simp add: slices_def)
next
  case (Suc m)
  have "concat (slices b (Suc m) xs) = concat (slices b m xs) @ take b (drop (m * b) xs)"
    by (simp add: slices_def)
  also have "\<dots> = take (m * b) xs @ take b (drop (m * b) xs)"
    using Suc by simp
  also have "\<dots> = take (m * b + b) xs"
    by (simp add: take_add)
  finally show ?case by (simp add: add.commute)
qed

lemma ceil_pos:
  fixes b n :: nat
  assumes b: "0 < b" and n: "0 < n"
  shows "0 < (n + b - 1) div b"
proof -
  have "b \<le> n + b - 1" using n by linarith
  then show ?thesis using b by (simp add: div_greater_zero_iff)
qed

lemma ceil_bounds:
  fixes b n :: nat
  assumes b: "0 < b" and n: "0 < n"
  shows "n \<le> ((n + b - 1) div b) * b" and "((n + b - 1) div b - 1) * b < n"
proof -
  let ?q = "(n + b - 1) div b"
  have split: "n + b - 1 = ?q * b + (n + b - 1) mod b" by simp
  have r: "(n + b - 1) mod b < b" using b by simp
  show "n \<le> ?q * b" using split r by linarith
  have "1 \<le> ?q" using ceil_pos [OF b n] by simp
  then have "(?q - 1) * b = ?q * b - b" by (simp add: diff_mult_distrib)
  moreover have "?q * b \<le> n + b - 1" using split by linarith
  ultimately show "(?q - 1) * b < n" using b n by linarith
qed

lemma generateBatches_slices:
  assumes b: "0 < b"
  shows "generateBatches items b
    = Some (Inr (slices b (if items = [] then 1 else (length items + b - 1) div b) items))"
proof -
  let ?n = "length items"
  let ?m = "if items = [] then 1 else (?n + b - 1) div b"
  have nb: "numBatchesOf ?n b = Finite ?m"
  proof (cases "items = []")
    case True
    then show ?thesis using b by (simp add: numBatchesOf_def ceilDiv_def)
  next
    case False
    then have "0 < ?n" by simp
    then have "0 < (?n + b - 1) div b" by (rule ceil_pos [OF b])
    then show ?thesis using b False by (simp add: numBatchesOf_def ceilDiv_def Let_def)
  qed
  have init: "initBatches 0 (Finite ?m) [] = Some (slices b ?m ([] :: 'a list))"
  proof -
    have "slices b ?m ([] :: 'a list) = replicate ?m []"
      by (rule nth_equalityI) (simp_all add: nth_slices)
    then show ?thesis using initBatches_Finite [of 0 ?m "[]"] by simp
  qed
  have cap: "length ([] @ items) \<le> ?m * b"
    using ceil_bounds(1) [OF b, of ?n] by (cases "items = []") simp_all
  have "fillBatches b items (slices b ?m []) (length ([] :: 'a list) div b)
          = Inr (slices b ?m ([] @ items))"
    by (rule fillBatches_slices [OF b cap])
  then show ?thesis using nb init by (simp add: generateBatches_def)
qed

lemma generateBatches_positive:
  assumes b: "0 < b"
  shows "\<exists>bs. generateBatches items b = Some (Inr bs) \<and> concat bs = items \<and> bs \<noteq> []
     \<and> (\<forall>k. Suc k < length bs \<longrightarrow> length (bs ! k) = b)
     \<and> length (last bs) \<le> b \<and> (items \<noteq> [] \<longrightarrow> last bs \<noteq> [])
     \<and> (items = [] \<longrightarrow> bs = [[]])"
proof -
  let ?n = "length items"
  let ?m = "if items = [] then 1 else (?n + b - 1) div b"
  let ?bs = "slices b ?m items"
  have m_pos: "0 < ?m" using ceil_pos [OF b, of ?n] by simp
  have cap: "?n \<le> ?m * b"
    using ceil_bounds(1) [OF b, of ?n] by (cases "items = []") simp_all
  have tight: "items \<noteq> [] \<Longrightarrow> (?m - 1) * b < ?n"
    using ceil_bounds(2) [OF b, of ?n] by simp
  have c1: "concat ?bs = items" using cap by (simp add: concat_slices)
  have c2: "?bs \<noteq> []" using m_pos by (metis length_slices less_numeral_extra(3) list.size(3))
  have c3: "\<forall>k. Suc k < length ?bs \<longrightarrow> length (?bs ! k) = b"
  proof (intro allI impI)
    fix k assume k: "Suc k < length ?bs"
    then have km: "Suc k < ?m" by simp
    then have ne: "items \<noteq> []" by (auto split: if_splits)
    from km have "Suc k \<le> ?m - 1" by simp
    then have "Suc k * b \<le> (?m - 1) * b" by (rule mult_le_mono1)
    with tight [OF ne] have "k * b + b \<le> ?n" by simp
    then show "length (?bs ! k) = b" using km by (simp add: nth_slices)
  qed
  have lastbs: "last ?bs = take b (drop ((?m - 1) * b) items)"
    using m_pos c2 by (simp add: last_conv_nth nth_slices)
  have c4: "length (last ?bs) \<le> b" by (simp add: lastbs)
  have c5: "items \<noteq> [] \<longrightarrow> last ?bs \<noteq> []"
  proof
    assume ne: "items \<noteq> []"
    from tight [OF ne] have "drop ((?m - 1) * b) items \<noteq> []" by simp
    then have "take b (drop ((?m - 1) * b) items) \<noteq> []" using b by simp
    then show "last ?bs \<noteq> []" unfolding lastbs .
  qed
  have c6: "items = [] \<longrightarrow> ?bs = [[]]" by (simp add: slices_def)
  show ?thesis
    using generateBatches_slices [OF b, of items] c1 c2 c3 c4 c5 c6 by blast
qed


subsection \<open>Accounting of the collections\<close>

lemma answered_collectContent: "answered (collectContent content st) = answered st + length content"
proof (induction content arbitrary: st)
  case Nil
  then show ?case by simp
next
  case (Cons c content)
  then show ?case by (cases c) (simp_all add: answered_def)
qed

lemma maxRetriesReached_collectContent [simp]:
  "maxRetriesReached (collectContent content st) = maxRetriesReached st"
proof (induction content arbitrary: st)
  case Nil
  then show ?case by simp
next
  case (Cons c content)
  then show ?case by (cases c) simp_all
qed

lemma retryLoop_accounting:
  assumes wf: "wellFormed post"
  shows "answered (retryLoop post [(i, tx)] retries maxRetries st)
           + maxRetriesReached (retryLoop post [(i, tx)] retries maxRetries st)
         = Suc (answered st + maxRetriesReached st)"
proof (induction "maxRetries - retries" arbitrary: retries)
  case 0
  then have "\<not> retries < maxRetries" by simp
  then show ?case by (simp add: answered_def)
next
  case (Suc d)
  then have lt: "retries < maxRetries" and d: "d = maxRetries - Suc retries" by auto
  show ?case
  proof (cases "post [(i, tx)] retries")
    case TransportFailure
    with lt Suc.hyps(1) [OF d] show ?thesis by simp
  next
    case (Response content)
    with wf have "length content = length [(i, tx)]" unfolding wellFormed_def by blast
    with lt Response show ?thesis by (simp add: answered_collectContent)
  qed
qed

lemma sendSenderTxs_accounting:
  assumes wf: "wellFormed post"
  shows "answered (sendSenderTxs post txs st) + maxRetriesReached (sendSenderTxs post txs st)
         = answered st + maxRetriesReached st + length txs"
proof (induction txs arbitrary: st)
  case Nil
  then show ?case by simp
next
  case (Cons tx txs)
  show ?case
    using Cons.IH [of "sendTransactionWithRetry post [(0, tx)] st 3"]
      retryLoop_accounting [OF wf, of 0 tx 0 3 st]
    by (simp add: sendTransactionWithRetry_def)
qed

lemma sendAllSenders_accounting:
  assumes wf: "wellFormed post"
  shows "answered (sendAllSenders post senders st) + maxRetriesReached (sendAllSenders post senders st)
         = answered st + maxRetriesReached st + submitted senders"
proof (induction senders arbitrary: st)
  case Nil
  then show ?case by (simp add: submitted_def)
next
  case (Cons s senders)
  obtain address txs where s: "s = (address, txs)" by (cases s)
  show ?case
    using Cons.IH [of "sendSenderTxs post txs st"] sendSenderTxs_accounting [OF wf, of txs st]
    by (simp add: s submitted_def)
qed

lemma backgroundRetry_delivered:
  "post req (attempt + k) = Response content \<Longrightarrow>
   (\<forall>j < k. post req (attempt + j) = TransportFailure) \<Longrightarrow>
   backgroundRetry post req attempt st = Some (collectContent content st)"
proof (induction k arbitrary: attempt)
  case 0
  then show ?case by (subst backgroundRetry.simps) simp
next
  case (Suc k)
  from Suc.prems(2) have first: "post req attempt = TransportFailure" by force
  have "post req (Suc attempt + k) = Response content" using Suc.prems(1) by simp
  moreover have "\<forall>j < k. post req (Suc attempt + j) = TransportFailure"
  proof (intro allI impI)
    fix j assume "j < k"
    then have "Suc j < Suc k" by simp
    with Suc.prems(2) have "post req (attempt + Suc j) = TransportFailure" by blast
    then show "post req (Suc attempt + j) = TransportFailure" by simp
  qed
  ultimately have "backgroundRetry post req (Suc attempt) st = Some (collectContent content st)"
    by (rule Suc.IH)
  then show ?case using first by (subst backgroundRetry.simps) simp
qed

lemma backgroundRetry_eventually:
  assumes ev: "\<exists>j. post req j \<noteq> TransportFailure" and wf: "wellFormed post"
    and failed: "\<forall>j < attempt. post req j = TransportFailure"
  shows "\<exists>st'. backgroundRetry post req attempt st = Some st'
           \<and> answered st' = answered st + length req
           \<and> maxRetriesReached st' = maxRetriesReached st"
proof -
  define k where "k = (LEAST j. post req j \<noteq> TransportFailure)"
  have at: "post req k \<noteq> TransportFailure"
    unfolding k_def using ev by (rule LeastI_ex)
  have least: "\<forall>j < k. post req j = TransportFailure"
    unfolding k_def using not_less_Least by fastforce
  have "attempt \<le> k"
  proof (rule ccontr)
    assume "\<not> attempt \<le> k"
    then have "k < attempt" by simp
    with failed have "post req k = TransportFailure" by blast
    with at show False by simp
  qed
  then obtain d where d: "k = attempt + d" using le_Suc_ex by blast
  from at obtain content where c: "post req (attempt + d) = Response content"
    unfolding d by (cases "post req (attempt + d)") auto
  have before: "\<forall>j < d. post req (attempt + j) = TransportFailure"
    using least unfolding d by simp
  have "backgroundRetry post req attempt st = Some (collectContent content st)"
    using c before by (rule backgroundRetry_delivered)
  moreover have "length content = length req"
    using c wf by (auto simp: wellFormed_def)
  ultimately show ?thesis by (simp add: answered_collectContent)
qed

lemma settle_accounting:
  assumes ev: "\<forall>req. \<exists>j. post req j \<noteq> TransportFailure" and wf: "wellFormed post"
  shows "failedSoFar post background \<Longrightarrow>
         \<exists>st'. settle post background st = Some st'
           \<and> answered st' = answered st + pending background
           \<and> maxRetriesReached st' = maxRetriesReached st"
proof (induction background arbitrary: st)
  case Nil
  then show ?case by (simp add: pending_def)
next
  case (Cons r background)
  obtain req attempt where r: "r = (req, attempt)" by (cases r)
  from Cons.prems have failed: "\<forall>j < attempt. post req j = TransportFailure"
    and rest: "failedSoFar post background"
    by (simp_all add: failedSoFar_def r)
  from ev have "\<exists>j. post req j \<noteq> TransportFailure" by blast
  from backgroundRetry_eventually [OF this wf failed, of st]
  obtain st1 where s1: "backgroundRetry post req attempt st = Some st1"
    and a1: "answered st1 = answered st + length req"
    and m1: "maxRetriesReached st1 = maxRetriesReached st" by blast
  from Cons.IH [OF rest, of st1]
  obtain st2 where s2: "settle post background st1 = Some st2"
    and a2: "answered st2 = answered st1 + pending background"
    and m2: "maxRetriesReached st2 = maxRetriesReached st1" by blast
  show ?case using s1 a1 m1 s2 a2 m2 by (simp add: r pending_def)
qed

lemma sendTransaction_accounting:
  assumes wf: "wellFormed post" and failed: "failedSoFar post background"
    and sent: "sendTransaction post req 0 (st, background) = (st', background')"
  shows "answered st' + pending background' = answered st + pending background + length req
         \<and> maxRetriesReached st' = maxRetriesReached st
         \<and> failedSoFar post background'"
proof (cases "post req 0")
  case TransportFailure
  with sent have "st' = st" and "background' = background @ [(req, Suc 0)]"
    by (simp_all add: sendTransaction_def)
  then show ?thesis using failed TransportFailure
    by (auto simp: pending_def failedSoFar_def)
next
  case (Response content)
  with sent have "st' = collectContent content st" and "background' = background"
    by (simp_all add: sendTransaction_def)
  moreover have "length content = length req"
    using Response wf by (auto simp: wellFormed_def)
  ultimately show ?thesis using failed by (simp add: answered_collectContent)
qed

lemma sendBatches_accounting:
  assumes wf: "wellFormed post"
  shows "failedSoFar post background \<Longrightarrow>
         sendBatches post batches nextIndx (st, background) = (st', background') \<Longrightarrow>
         answered st' + pending background'
           = answered st + pending background + length (concat batches)
         \<and> maxRetriesReached st' = maxRetriesReached st
         \<and> failedSoFar post background'"
proof (induction batches arbitrary: nextIndx st background)
  case Nil
  then show ?case by simp
next
  case (Cons batch batches)
  let ?req = "zip [nextIndx ..< nextIndx + length batch] batch"
  obtain st1 bg1 where s1: "sendTransaction post ?req 0 (st, background) = (st1, bg1)"
    by (cases "sendTransaction post ?req 0 (st, background)")
  from sendTransaction_accounting [OF wf Cons.prems(1) s1]
  have a1: "answered st1 + pending bg1 = answered st + pending background + length ?req"
    and m1: "maxRetriesReached st1 = maxRetriesReached st"
    and f1: "failedSoFar post bg1" by simp_all
  from Cons.prems(2) s1
  have s2: "sendBatches post batches (nextIndx + length batch) (st1, bg1) = (st', background')"
    by simp
  from Cons.IH [OF f1 s2]
  have a2: "answered st' + pending background' = answered st1 + pending bg1 + length (concat batches)"
    and m2: "maxRetriesReached st' = maxRetriesReached st1"
    and f2: "failedSoFar post background'" by simp_all
  show ?case using a1 m1 a2 m2 f2 by simp
qed

lemma batchTransactions_accounting:
  assumes b: "0 < batchSize"
    and ev: "\<forall>req. \<exists>j. post req j \<noteq> TransportFailure" and wf: "wellFormed post"
  shows "\<exists>c background st. batchTransactions signedTxs batchSize post = Some (Inr (c, background))
           \<and> settle post background c = Some st
           \<and> answered st = length signedTxs"
proof -
  let ?empty = "\<lparr>txHashes = [], batchErrors = [], maxRetriesReached = 0\<rparr>"
  from generateBatches_positive [OF b, of signedTxs]
  obtain bs where g: "generateBatches signedTxs batchSize = Some (Inr bs)"
    and c: "concat bs = signedTxs" by blast
  obtain st1 bg1 where s: "sendBatches post bs 0 (?empty, []) = (st1, bg1)"
    by (cases "sendBatches post bs 0 (?empty, [])")
  have f0: "failedSoFar post []" by (simp add: failedSoFar_def)
  from sendBatches_accounting [OF wf f0 s]
  have a1: "answered st1 + pending bg1 = length (concat bs)" and f1: "failedSoFar post bg1"
    by (simp_all add: answered_def pending_def)
  from settle_accounting [OF ev wf f1, of st1]
  obtain st where "settle post bg1 st1 = Some st" and "answered st = answered st1 + pending bg1"
    by blast
  then show ?thesis using g c s a1 by (simp add: batchTransactions_def)
qed

section \<open>Properties of the distributors\<close>

subsection \<open>The allocation loop\<close>

lemma tracked_Nil [simp]: "tracked balance [] = balance"
  by (simp add: tracked_def)

lemma tracked_Cons: "tracked balance (a # xs) = tracked (balance - missingFunds a) xs"
  by (simp add: tracked_def)

lemma fundableLoop_prefix:
  "\<exists>k \<le> length heap. fundableLoop cost balance heap acc = acc @ take k heap
      \<and> (\<forall>j < k. cost < tracked balance (take j heap))
      \<and> (k < length heap \<longrightarrow> \<not> cost < tracked balance (take k heap))"
proof (induction heap arbitrary: balance acc)
  case Nil
  then show ?case by simp
next
  case (Cons a heap)
  show ?case
  proof (cases "cost < balance")
    case False
    then have "fundableLoop cost balance (a # heap) acc = acc @ take 0 (a # heap)
      \<and> (\<forall>j < (0::nat). cost < tracked balance (take j (a # heap)))
      \<and> (0 < length (a # heap) \<longrightarrow> \<not> cost < tracked balance (take 0 (a # heap)))"
      by simp
    then show ?thesis by blast
  next
    case True
    from Cons.IH [of "balance - missingFunds a" "acc @ [a]"]
    obtain k where k: "k \<le> length heap"
      and res: "fundableLoop cost (balance - missingFunds a) heap (acc @ [a]) = (acc @ [a]) @ take k heap"
      and before: "\<forall>j < k. cost < tracked (balance - missingFunds a) (take j heap)"
      and stop: "k < length heap \<longrightarrow> \<not> cost < tracked (balance - missingFunds a) (take k heap)"
      by blast
    have r: "fundableLoop cost balance (a # heap) acc = acc @ take (Suc k) (a # heap)"
      using True res by simp
    have b: "\<forall>j < Suc k. cost < tracked balance (take j (a # heap))"
    proof (intro allI impI)
      fix j assume j: "j < Suc k"
      show "cost < tracked balance (take j (a # heap))"
      proof (cases j)
        case 0
        then show ?thesis using True by simp
      next
        case (Suc j')
        with j before have "cost < tracked (balance - missingFunds a) (take j' heap)" by simp
        then show ?thesis using Suc by (simp add: tracked_Cons)
      qed
    qed
    have s: "Suc k < length (a # heap) \<longrightarrow> \<not> cost < tracked balance (take (Suc k) (a # heap))"
      using stop by (simp add: tracked_Cons)
    from k r b s show ?thesis by (intro exI [of _ "Suc k"]) simp
  qed
qed

lemma token_fundableLoop_eq: "token_fundableLoop cost balance heap acc = fundableLoop cost balance heap acc"
  by (induction heap arbitrary: balance acc) simp_all

lemma fundableLoop_empty_iff:
  "fundableLoop cost balance heap [] = [] \<longleftrightarrow> heap = [] \<or> \<not> cost < balance"
proof (cases heap)
  case Nil
  then show ?thesis by simp
next
  case (Cons a rest)
  from fundableLoop_prefix [of rest cost "balance - missingFunds a" "[a]"]
  obtain k where "fundableLoop cost (balance - missingFunds a) rest [a] = [a] @ take k rest"
    by blast
  then show ?thesis using Cons by simp
qed

subsection \<open>The balance scan\<close>

lemma findAccountsLoop_closed:
  "findAccountsLoop w cost idxs (short, ready)
     = (short @ map (\<lambda>i. shortfallEntry w cost (getBalance w (walletAddress w i)) i)
                  (filter (\<lambda>i. getBalance w (walletAddress w i) < cost) idxs),
        ready @ filter (\<lambda>i. \<not> getBalance w (walletAddress w i) < cost) idxs)"
  by (induction idxs arbitrary: short ready) (simp_all add: Let_def shortfallEntry_def)

lemma token_findAccountsLoop_closed:
  "token_findAccountsLoop w tokenRt cost idxs short
     = short @ map (\<lambda>i. shortfallEntry w cost (GetTokenBalance tokenRt (walletAddress w i)) i)
                 (filter (\<lambda>i. GetTokenBalance tokenRt (walletAddress w i) < cost) idxs)"
  by (induction idxs arbitrary: short) (simp_all add: Let_def shortfallEntry_def)

lemma mnemonicIndex_shortfallEntry [simp]: "mnemonicIndex (shortfallEntry w c b i) = i"
  by (simp add: shortfallEntry_def)

lemma scan_native:
  assumes "findAccountsForDistribution w cost n ready0 = (short, ready)"
    and "1 \<le> i" and "i \<le> n"
  shows "(getBalance w (walletAddress w i) < cost \<longrightarrow>
            shortfallEntry w cost (getBalance w (walletAddress w i)) i \<in> set short
            \<and> (i \<in> set ready \<longrightarrow> i \<in> set ready0))
       \<and> (\<not> getBalance w (walletAddress w i) < cost \<longrightarrow>
            i \<in> set ready \<and> (\<forall>e \<in> set short. mnemonicIndex e \<noteq> i))"
proof -
  have mem: "i \<in> set [1 ..< Suc n]" using assms(2,3) by auto
  have s: "short = map (\<lambda>i. shortfallEntry w cost (getBalance w (walletAddress w i)) i)
                  (filter (\<lambda>i. getBalance w (walletAddress w i) < cost) [1 ..< Suc n])"
    and r: "ready = ready0 @ filter (\<lambda>i. \<not> getBalance w (walletAddress w i) < cost) [1 ..< Suc n]"
    using assms(1) by (simp_all add: findAccountsForDistribution_def findAccountsLoop_closed)
  show ?thesis using mem unfolding s r by auto
qed

lemma scan_token:
  assumes "token_findAccountsForDistribution w tokenRt cost readyMnemonicIndexes = (short, ready)"
    and "i \<in> set readyMnemonicIndexes"
  shows "(GetTokenBalance tokenRt (walletAddress w i) < cost \<longrightarrow>
            shortfallEntry w cost (GetTokenBalance tokenRt (walletAddress w i)) i \<in> set short)
       \<and> (\<not> GetTokenBalance tokenRt (walletAddress w i) < cost \<longrightarrow>
            (\<forall>e \<in> set short. mnemonicIndex e \<noteq> i))
       \<and> i \<in> set ready \<and> ready = readyMnemonicIndexes
       \<and> (\<forall>e \<in> set short. mnemonicIndex e \<in> set readyMnemonicIndexes)"
proof -
  have s: "short = map (\<lambda>i. shortfallEntry w cost (GetTokenBalance tokenRt (walletAddress w i)) i)
                  (filter (\<lambda>i. GetTokenBalance tokenRt (walletAddress w i) < cost) readyMnemonicIndexes)"
    and r: "ready = readyMnemonicIndexes"
    using assms(1) by (auto simp: token_findAccountsForDistribution_def token_findAccountsLoop_closed)
  show ?thesis using assms(2) unfolding s r by auto
qed

subsection \<open>The receipt loop\<close>

lemma checkReceipt_mono: "set (fst st) \<subseteq> set (fst (checkReceipt wait accounts h i st))"
  by (cases st; cases "wait h") (auto simp: checkReceipt_def)

lemma checkReceipt_success:
  assumes "wait h = Receipt status" and "status \<noteq> Some 0" and "i < length accounts"
  shows "checkReceipt wait accounts h i (ready, errs)
           = (ready @ [mnemonicIndex (accounts ! i)], errs)"
  using assms by (simp add: checkReceipt_def)

lemma waitLoop_mono:
  "set (fst st) \<subseteq> set (fst (waitLoop wait accounts hs i st))"
proof (induction hs arbitrary: i st)
  case Nil
  then show ?case by simp
next
  case (Cons h hs)
  have "set (fst st) \<subseteq> set (fst (checkReceipt wait accounts h i st))"
    by (rule checkReceipt_mono)
  also have "\<dots> \<subseteq> set (fst (waitLoop wait accounts hs (Suc i) (checkReceipt wait accounts h i st)))"
    by (rule Cons.IH)
  finally show ?case by simp
qed

lemma waitLoop_marks:
  assumes "k < length hs" and "i + k < length accounts"
    and "wait (hs ! k) = Receipt status" and "status \<noteq> Some 0"
  shows "mnemonicIndex (accounts ! (i + k)) \<in> set (fst (waitLoop wait accounts hs i st))"
  using assms
proof (induction hs arbitrary: i k st)
  case Nil
  then show ?case by simp
next
  case (Cons h hs)
  show ?case
  proof (cases k)
    case 0
    obtain ready errs where st: "st = (ready, errs)" by (cases st)
    from Cons.prems 0 have "checkReceipt wait accounts h i st
        = (ready @ [mnemonicIndex (accounts ! i)], errs)"
      unfolding st by (intro checkReceipt_success) simp_all
    then have "mnemonicIndex (accounts ! i) \<in> set (fst (checkReceipt wait accounts h i st))"
      by simp
    with waitLoop_mono [of "checkReceipt wait accounts h i st" wait accounts hs "Suc i"] 0
    show ?thesis by auto
  next
    case (Suc k')
    from Cons.prems Suc have "k' < length hs" "Suc i + k' < length accounts"
      "wait (hs ! k') = Receipt status" by simp_all
    from Cons.IH [OF this Cons.prems(4), of "checkReceipt wait accounts h i st"] Suc
    show ?thesis by simp
  qed
qed


subsection \<open>Funding when the node accepts every transaction\<close>

text \<open>
  When the node answers every transaction of every batch with a hash, \<open>txHashes\<close> holds
  the hash of the funding transaction of \<open>accounts[k]\<close> at position \<open>k\<close>, and a receipt for
  that hash whose status is not \<open>0\<close> (a receipt without a status included) puts the index
  of \<open>accounts[k]\<close> into the ready list \<open>fundAccounts\<close> leaves, in both distributors.
\<close>

lemma collectContent_results:
  "collectContent (map (RpcResult \<circ> f) xs) st = st\<lparr>txHashes := txHashes st @ map f xs\<rparr>"
  by (induction xs arbitrary: st) simp_all

lemma map_zip_values:
  "length ids = length txs \<Longrightarrow> map (\<lambda>(id, tx). f tx) (zip ids txs) = map f txs"
  by (induction ids txs rule: list_induct2) simp_all

lemma sendBatches_accepted:
  assumes "\<forall>reqs attempt. post reqs attempt = Response (map (\<lambda>(id, tx). RpcResult (hashOf tx)) reqs)"
  shows "sendBatches post batches nextIndx (st, background)
           = (st\<lparr>txHashes := txHashes st @ map hashOf (concat batches)\<rparr>, background)"
proof (induction batches arbitrary: nextIndx st)
  case Nil
  then show ?case by simp
next
  case (Cons batch batches)
  let ?req = "zip [nextIndx ..< nextIndx + length batch] batch"
  have "map (\<lambda>(id, tx). RpcResult (hashOf tx)) ?req = map RpcResult (map hashOf batch)"
    by (simp add: map_zip_values)
  then have "post ?req 0 = Response (map RpcResult (map hashOf batch))"
    using assms by simp
  then have "sendTransaction post ?req 0 (st, background)
      = (st\<lparr>txHashes := txHashes st @ map hashOf batch\<rparr>, background)"
    by (simp add: sendTransaction_def collectContent_results)
  then show ?case by (simp add: Cons.IH)
qed

lemma batchTransactions_accepted:
  assumes "0 < batchSize"
    and "\<forall>reqs attempt. post reqs attempt = Response (map (\<lambda>(id, tx). RpcResult (hashOf tx)) reqs)"
  shows "batchTransactions signedTxs batchSize post
           = Some (Inr (\<lparr>txHashes = map hashOf signedTxs, batchErrors = [], maxRetriesReached = 0\<rparr>, []))"
proof -
  from generateBatches_positive [OF assms(1), of signedTxs]
  obtain bs where g: "generateBatches signedTxs batchSize = Some (Inr bs)"
    and c: "concat bs = signedTxs" by blast
  show ?thesis
    by (simp add: batchTransactions_def g sendBatches_accepted [OF assms(2)] c)
qed

lemma length_buildFundTxs [simp]:
  "length (buildFundTxs root chain price accounts n) = length accounts"
  by (induction accounts arbitrary: n) simp_all

lemma length_token_buildFundTxs [simp]:
  "length (token_buildFundTxs tokenRt chain price estimate accounts n) = length accounts"
  by (induction accounts arbitrary: n) simp_all

lemma fundAccounts_aligned:
  assumes "0 < batchSize"
    and "\<forall>reqs attempt. httpPost w reqs attempt
            = Response (map (\<lambda>(id, tx). RpcResult (hashOf tx)) reqs)"
    and "k < length accounts"
    and "waitForTransaction w
           (hashOf (buildFundTxs (walletAddress w 0) (getChainId w) (getGasPrice w) accounts
                      (getTransactionCount w (walletAddress w 0)) ! k)) = Receipt status"
    and "status \<noteq> Some 0"
  shows "\<exists>ready waitErrors.
           fundAccounts w batchSize accounts readyMnemonicIndexes = Some (Inr (ready, waitErrors))
           \<and> mnemonicIndex (accounts ! k) \<in> set ready"
proof -
  let ?txs = "buildFundTxs (walletAddress w 0) (getChainId w) (getGasPrice w) accounts
                (getTransactionCount w (walletAddress w 0))"
  let ?res = "waitLoop (waitForTransaction w) accounts (map hashOf ?txs) 0 (readyMnemonicIndexes, [])"
  have run: "fundAccounts w batchSize accounts readyMnemonicIndexes = Some (Inr ?res)"
    by (simp add: fundAccounts_def Let_def batchTransactions_accepted [OF assms(1,2)])
  have "mnemonicIndex (accounts ! (0 + k)) \<in> set (fst ?res)"
    using assms(3,4,5) by (intro waitLoop_marks [where status = status]) simp_all
  then show ?thesis using run by (cases ?res) auto
qed

lemma token_fundAccounts_aligned:
  assumes "0 < batchSize"
    and "\<forall>reqs attempt. httpPost w reqs attempt
            = Response (map (\<lambda>(id, tx). RpcResult (hashOf tx)) reqs)"
    and "k < length accounts"
    and "waitForTransaction w
           (hashOf (token_buildFundTxs tokenRt (getChainId w) (getGasPrice w)
                      (tokenEstimateBaseTx tokenRt) accounts
                      (getTransactionCount w (walletAddress w 0)) ! k)) = Receipt status"
    and "status \<noteq> Some 0"
  shows "\<exists>ready waitErrors.
           token_fundAccounts w tokenRt batchSize accounts = Some (Inr (ready, waitErrors))
           \<and> mnemonicIndex (accounts ! k) \<in> set ready"
proof -
  let ?txs = "token_buildFundTxs tokenRt (getChainId w) (getGasPrice w)
                (tokenEstimateBaseTx tokenRt) accounts (getTransactionCount w (walletAddress w 0))"
  let ?res = "waitLoop (waitForTransaction w) accounts (map hashOf ?txs) 0 ([], [])"
  have run: "token_fundAccounts w tokenRt batchSize accounts = Some (Inr ?res)"
    by (simp add: token_fundAccounts_def Let_def batchTransactions_accepted [OF assms(1,2)])
  have "mnemonicIndex (accounts ! (0 + k)) \<in> set (fst ?res)"
    using assms(3,4,5) by (intro waitLoop_marks [where status = status]) simp_all
  then show ?thesis using run by (cases ?res) auto
qed


subsection \<open>Failure of the allocation\<close>

lemma distribute_aborts:
  assumes "fst (findAccountsForDistribution w (subAccount (calculateRuntimeCosts w rt totalTx))
                  requestedSubAccounts ready0) \<noteq> []"
    and "fundableLoop (accDistributionCost (calculateRuntimeCosts w rt totalTx))
           (getBalance w (walletAddress w 0))
           (heapOrder w (fst (findAccountsForDistribution w
               (subAccount (calculateRuntimeCosts w rt totalTx)) requestedSubAccounts ready0))) [] = []"
  shows "distribute w rt requestedSubAccounts totalTx batchSize ready0 = Some (Inl errNotEnoughFunds)"
proof -
  obtain short ready where
    scan: "findAccountsForDistribution w (subAccount (calculateRuntimeCosts w rt totalTx))
             requestedSubAccounts ready0 = (short, ready)"
    by (cases "findAccountsForDistribution w (subAccount (calculateRuntimeCosts w rt totalTx))
             requestedSubAccounts ready0")
  from assms show ?thesis
    unfolding scan by (simp add: distribute_def getFundableAccounts_def Let_def scan)
qed

lemma distributeTokens_aborts:
  assumes "token_calculateRuntimeCosts tokenRt totalTx (length ready0) = Some costs"
    and "fst (token_findAccountsForDistribution w tokenRt (tokenSubAccount costs) ready0) \<noteq> []"
    and "token_fundableLoop (tokenSubAccount costs) (GetSupplierBalance tokenRt)
           (heapOrder w (fst (token_findAccountsForDistribution w tokenRt (tokenSubAccount costs)
               ready0))) [] = []"
  shows "distributeTokens w tokenRt totalTx batchSize ready0 = Some (Inl errNotEnoughFunds)"
  using assms
  by (simp add: distributeTokens_def token_getFundableAccounts_def
      token_findAccountsForDistribution_def Let_def)


text \<open>
  In the token distributor an entry is popped only while the tracked balance exceeds the
  per-account cost; when no entry misses more than that cost (the scan produces such entries
  from non-negative balances), the allocated total stays within the supplier's balance.
\<close>

lemma token_budget_aux:
  assumes "\<forall>a \<in> set heap. missingFunds a \<le> cost" and "0 \<le> balance"
  shows "\<exists>chosen. token_fundableLoop cost balance heap acc = acc @ chosen
            \<and> sum_list (map missingFunds chosen) \<le> balance"
  using assms
proof (induction heap arbitrary: balance acc)
  case Nil
  then show ?case by simp
next
  case (Cons a heap)
  show ?case
  proof (cases "cost < balance")
    case False
    then show ?thesis using Cons.prems by simp
  next
    case True
    have le: "missingFunds a \<le> cost" using Cons.prems(1) by simp
    then have nonneg: "0 \<le> balance - missingFunds a" using True by simp
    have rest: "\<forall>a \<in> set heap. missingFunds a \<le> cost" using Cons.prems(1) by simp
    from Cons.IH [OF rest nonneg, of "acc @ [a]"]
    obtain chosen where
      c: "token_fundableLoop cost (balance - missingFunds a) heap (acc @ [a]) = (acc @ [a]) @ chosen"
      and s: "sum_list (map missingFunds chosen) \<le> balance - missingFunds a" by blast
    have "token_fundableLoop cost balance (a # heap) acc = acc @ (a # chosen)"
      using True c by simp
    moreover have "sum_list (map missingFunds (a # chosen)) \<le> balance" using s by simp
    ultimately show ?thesis by blast
  qed
qed

lemma token_budget:
  assumes "\<forall>a \<in> set initialSet. missingFunds a \<le> tokenSubAccount costs"
    and "0 \<le> supplierBalance"
    and "token_getFundableAccounts costs supplierBalance initialSet = Inr accountsToFund"
  shows "sum_list (map missingFunds accountsToFund) \<le> supplierBalance"
proof -
  from token_budget_aux [OF assms(1,2), of "[]"] assms(3)
  show ?thesis by (auto simp: token_getFundableAccounts_def Let_def split: if_splits)
qed


section \<open>Properties of the transaction construction\<close>

lemma createTransferTransaction_fields:
  assumes "createTransferTransaction rt sender receiver gp dynamic = Inr tx"
  shows "tx_nonce tx = nonce sender" and "tx_from tx = Some (wallet sender)"
    and "tx_to tx = wallet receiver"
  using assms
  by (auto simp: createTransferTransaction_def getNonce_def getAddress_def Let_def
      split: if_splits option.splits sum.splits)

lemma senderLoop_result:
  assumes "senderLoop rt dynamic n i j k accounts txs = Inr (accounts', txs')"
    and "i < length accounts" and "j \<le> k"
  shows "accounts' = accounts[i := (accounts ! i)\<lparr>nonce := nonce (accounts ! i) + (k - j)\<rparr>]
     \<and> map tx_nonce txs' = map tx_nonce txs @ [nonce (accounts ! i) ..< nonce (accounts ! i) + (k - j)]
     \<and> map tx_from txs' = map tx_from txs @ replicate (k - j) (Some (wallet (accounts ! i)))"
  using assms
proof (induction "k - j" arbitrary: j accounts txs)
  case 0
  then have "j = k" by simp
  with "0.prems" show ?case by simp
next
  case (Suc d)
  then have lt: "j < k" and d: "d = k - Suc j" by auto
  let ?sender = "accounts ! i"
  let ?receiver = "accounts ! ((i + j) mod n)"
  from Suc.prems(1) lt obtain tx where
    tx: "createTransferTransaction rt ?sender ?receiver (gasPrice rt) dynamic = Inr tx"
    and rest: "senderLoop rt dynamic n i (Suc j) k (accounts[i := incrNonce ?sender]) (txs @ [tx])
                 = Inr (accounts', txs')"
    by (auto simp: Let_def split: sum.splits)
  let ?accounts1 = "accounts[i := incrNonce ?sender]"
  have len: "i < length ?accounts1" using Suc.prems(2) by simp
  have at: "?accounts1 ! i = incrNonce ?sender" using Suc.prems(2) by simp
  have kj: "k - j = Suc d" using Suc.hyps(2) by simp
  have n1: "nonce (?accounts1 ! i) = Suc (nonce ?sender)"
    and w1: "wallet (?accounts1 ! i) = wallet ?sender"
    using at by (simp_all add: incrNonce_def)
  from Suc.hyps(1) [OF d rest len] lt
  have ih: "accounts' = ?accounts1[i := (?accounts1 ! i)\<lparr>nonce := nonce (?accounts1 ! i) + d\<rparr>]
     \<and> map tx_nonce txs' = map tx_nonce (txs @ [tx])
           @ [nonce (?accounts1 ! i) ..< nonce (?accounts1 ! i) + d]
     \<and> map tx_from txs' = map tx_from (txs @ [tx])
           @ replicate d (Some (wallet (?accounts1 ! i)))"
    unfolding d by simp
  have c1: "accounts' = accounts[i := ?sender\<lparr>nonce := nonce ?sender + Suc d\<rparr>]"
  proof -
    have "(?accounts1 ! i)\<lparr>nonce := nonce (?accounts1 ! i) + d\<rparr>
            = ?sender\<lparr>nonce := nonce ?sender + Suc d\<rparr>"
      unfolding at by (simp add: incrNonce_def)
    with ih show ?thesis by simp
  qed
  have "[nonce ?sender ..< nonce ?sender + Suc d]
          = nonce ?sender # [Suc (nonce ?sender) ..< Suc (nonce ?sender) + d]"
    by (simp add: upt_rec)
  then have c2: "map tx_nonce txs' = map tx_nonce txs @ [nonce ?sender ..< nonce ?sender + Suc d]"
    using ih n1 createTransferTransaction_fields(1) [OF tx] by simp
  have c3: "map tx_from txs' = map tx_from txs @ replicate (Suc d) (Some (wallet ?sender))"
    using ih w1 createTransferTransaction_fields(2) [OF tx]
    by (simp add: replicate_app_Cons_same)
  from c1 c2 c3 show ?case unfolding kj by blast
qed

lemma senderLoop_frame:
  assumes "senderLoop rt dynamic n i 0 k accounts [] = Inr (accounts', txs')"
    and "i < length accounts"
  shows "length accounts' = length accounts"
    and "map wallet accounts' = map wallet accounts"
    and "\<And>m. m \<noteq> i \<Longrightarrow> accounts' ! m = accounts ! m"
    and "map tx_nonce txs' = [nonce (accounts ! i) ..< nonce (accounts ! i) + k]"
    and "map tx_from txs' = replicate k (Some (wallet (accounts ! i)))"
    and "nonce (accounts' ! i) = nonce (accounts ! i) + k"
proof -
  from senderLoop_result [OF assms(1) assms(2)]
  have r: "accounts' = accounts[i := (accounts ! i)\<lparr>nonce := nonce (accounts ! i) + k\<rparr>]"
    and t: "map tx_nonce txs' = [nonce (accounts ! i) ..< nonce (accounts ! i) + k]"
    and f: "map tx_from txs' = replicate k (Some (wallet (accounts ! i)))"
    by simp_all
  show "length accounts' = length accounts" by (simp add: r)
  show "map wallet accounts' = map wallet accounts"
    unfolding r using assms(2) by (intro nth_equalityI) (auto simp: nth_list_update)
  show "\<And>m. m \<noteq> i \<Longrightarrow> accounts' ! m = accounts ! m" by (simp add: r)
  show "map tx_nonce txs' = [nonce (accounts ! i) ..< nonce (accounts ! i) + k]" by (rule t)
  show "map tx_from txs' = replicate k (Some (wallet (accounts ! i)))" by (rule f)
  show "nonce (accounts' ! i) = nonce (accounts ! i) + k" using assms(2) by (simp add: r)
qed

lemma accountsLoop_other:
  assumes "accountsLoop rt dynamic n i k accounts transactions = Inr (accounts', transactions')"
    and "n = length accounts" and "\<forall>m. i \<le> m \<and> m < n \<longrightarrow> wallet (accounts ! m) \<noteq> a"
  shows "map_of transactions' a = map_of transactions a"
  using assms
proof (induction "n - i" arbitrary: i accounts transactions)
  case 0
  then show ?case by simp
next
  case (Suc d)
  then have lt: "i < n" and d: "d = n - Suc i" by auto
  have ilen: "i < length accounts" using lt Suc.prems(2) by simp
  from Suc.prems(1) lt obtain accounts1 txs where
    inner: "senderLoop rt dynamic n i 0 k accounts [] = Inr (accounts1, txs)"
    and rest: "accountsLoop rt dynamic n (Suc i) k accounts1
                 (AList.update (getAddress (accounts1 ! i)) txs transactions)
               = Inr (accounts', transactions')"
    by (auto split: sum.splits prod.splits)
  note fr = senderLoop_frame [OF inner ilen]
  have n1: "n = length accounts1" using fr(1) Suc.prems(2) by simp
  have same: "\<And>m. m < n \<Longrightarrow> wallet (accounts1 ! m) = wallet (accounts ! m)"
    using fr(2) Suc.prems(2) by (metis length_map nth_map)
  have others: "\<forall>m. Suc i \<le> m \<and> m < n \<longrightarrow> wallet (accounts1 ! m) \<noteq> a"
    using Suc.prems(3) same by auto
  have here: "wallet (accounts1 ! i) \<noteq> a"
    using Suc.prems(3) same [OF lt] lt by auto
  from Suc.hyps(1) [OF d rest n1 others]
  have "map_of transactions' a
          = map_of (AList.update (getAddress (accounts1 ! i)) txs transactions) a" .
  then show ?case using here by (simp add: update_conv' getAddress_def)
qed

lemma accountsLoop_result:
  assumes "accountsLoop rt dynamic n i k accounts transactions = Inr (accounts', transactions')"
    and "n = length accounts" and "distinct (map wallet accounts)" and "i \<le> m" and "m < n"
  shows "\<exists>txs. map_of transactions' (wallet (accounts ! m)) = Some txs
           \<and> map tx_nonce txs = [nonce (accounts ! m) ..< nonce (accounts ! m) + k]
           \<and> map tx_from txs = replicate k (Some (wallet (accounts ! m)))"
  using assms
proof (induction "n - i" arbitrary: i accounts transactions)
  case 0
  then show ?case by simp
next
  case (Suc d)
  then have lt: "i < n" and d: "d = n - Suc i" by auto
  have ilen: "i < length accounts" using lt Suc.prems(2) by simp
  from Suc.prems(1) lt obtain accounts1 txs where
    inner: "senderLoop rt dynamic n i 0 k accounts [] = Inr (accounts1, txs)"
    and rest: "accountsLoop rt dynamic n (Suc i) k accounts1
                 (AList.update (getAddress (accounts1 ! i)) txs transactions)
               = Inr (accounts', transactions')"
    by (auto split: sum.splits prod.splits)
  note fr = senderLoop_frame [OF inner ilen]
  have n1: "n = length accounts1" using fr(1) Suc.prems(2) by simp
  have d1: "distinct (map wallet accounts1)" using fr(2) Suc.prems(3) by simp
  show ?case
  proof (cases "m = i")
    case False
    with Suc.prems(4) have "Suc i \<le> m" by simp
    from Suc.hyps(1) [OF d rest n1 d1 this Suc.prems(5)] fr(3) [OF False]
    show ?thesis using False fr(2) by (metis Suc.prems(2) Suc.prems(5) length_map nth_map)
  next
    case True
    have same: "\<And>j. j < n \<Longrightarrow> wallet (accounts1 ! j) = wallet (accounts ! j)"
      using fr(2) Suc.prems(2) by (metis length_map nth_map)
    have others: "\<forall>j. Suc i \<le> j \<and> j < n \<longrightarrow> wallet (accounts1 ! j) \<noteq> wallet (accounts ! i)"
    proof (intro allI impI)
      fix j assume j: "Suc i \<le> j \<and> j < n"
      then have ji: "j \<noteq> i" by simp
      have jl: "j < length (map wallet accounts)" and il: "i < length (map wallet accounts)"
        using j lt Suc.prems(2) by simp_all
      from nth_eq_iff_index_eq [OF Suc.prems(3) jl il] ji
      have "wallet (accounts ! j) \<noteq> wallet (accounts ! i)"
        using jl il by simp
      with same j show "wallet (accounts1 ! j) \<noteq> wallet (accounts ! i)" by simp
    qed
    from accountsLoop_other [OF rest n1 others]
    have "map_of transactions' (wallet (accounts ! i))
            = map_of (AList.update (getAddress (accounts1 ! i)) txs transactions) (wallet (accounts ! i))" .
    also have "\<dots> = Some txs"
      using same [OF lt] by (simp add: update_conv' getAddress_def)
    finally show ?thesis using fr(4) fr(5) True by simp
  qed
qed


lemma getSenderAccounts_nth:
  assumes "i < length (getSenderAccounts w accountIndexes numTxs)"
  shows "getSenderAccounts w accountIndexes numTxs ! i
      = \<lparr>sender_mnemonicIndex = accountIndexes ! i,
         nonce = getTransactionCount w (walletAddress w (accountIndexes ! i)),
         wallet = walletAddress w (accountIndexes ! i)\<rparr>"
  using assms by (simp add: getSenderAccounts_def Let_def split: if_splits)

lemma length_getSenderAccounts:
  "length (getSenderAccounts w accountIndexes numTxs) = min (length accountIndexes) numTxs"
  by (simp add: getSenderAccounts_def Let_def)

lemma senderLoop_static:
  assumes "\<not> dynamic"
  shows "\<exists>r. senderLoop rt dynamic n i j k accounts txs = Inr r"
proof (induction "k - j" arbitrary: j accounts txs)
  case 0
  then show ?case by simp
next
  case (Suc d)
  then have lt: "j < k" and d: "d = k - Suc j" by auto
  obtain tx where tx: "createTransferTransaction rt (accounts ! i) (accounts ! ((i + j) mod n))
      (gasPrice rt) dynamic = Inr tx"
    using assms by (simp add: createTransferTransaction_def Let_def)
  from Suc.hyps(1) [OF d, of "accounts[i := incrNonce (accounts ! i)]" "txs @ [tx]"] lt tx
  show ?case by (simp add: Let_def)
qed

lemma accountsLoop_static:
  assumes "\<not> dynamic"
  shows "\<exists>r. accountsLoop rt dynamic n i k accounts transactions = Inr r"
proof (induction "n - i" arbitrary: i accounts transactions)
  case 0
  then show ?case by simp
next
  case (Suc d)
  then have lt: "i < n" and d: "d = n - Suc i" by auto
  from senderLoop_static [OF assms, of rt n i 0 k accounts "[]"]
  obtain accounts1 txs where
    inner: "senderLoop rt dynamic n i 0 k accounts [] = Inr (accounts1, txs)" by force
  from Suc.hyps(1) [OF d, of accounts1 "AList.update (getAddress (accounts1 ! i)) txs transactions"]
    lt inner
  show ?case by simp
qed

section \<open>The claims\<close>

text \<open>
  C1. The claim is that the missing funds of the accounts returned by
  \<open>getFundableAccounts\<close> never sum to more than the source balance read at the start. The
  native loop only asks whether the tracked balance exceeds the cost of one distribution
  transaction before it takes the next entry, whatever that entry misses. With a
  distribution cost of 21000, a root balance of 30000 and two accounts that each miss
  211000, the first account is returned, and it alone misses more than the root wallet
  holds.
\<close>

theorem getFundableAccounts_exceeds_balance:
  "getFundableAccounts \<lparr>accDistributionCost = 21000, subAccount = 211000\<rparr> 30000
       [\<lparr>missingFunds = 211000, address = ''0xA'', mnemonicIndex = 1\<rparr>,
        \<lparr>missingFunds = 211000, address = ''0xB'', mnemonicIndex = 2\<rparr>]
     = Inr [\<lparr>missingFunds = 211000, address = ''0xA'', mnemonicIndex = 1\<rparr>]
   \<and> (30000 :: int)
       < sum_list (map missingFunds [\<lparr>missingFunds = 211000, address = ''0xA'', mnemonicIndex = 1\<rparr>])"
  by (simp add: getFundableAccounts_def)

text \<open>
  C2. Let the sender accounts be those prepared by \<open>getSenderAccounts\<close>, with pairwise
  distinct addresses. Without dynamic fees \<open>ConstructTransactions\<close> returns a map; and
  whenever it returns a map, the transactions stored for the account at position \<open>i\<close>
  carry the nonces \<open>c, c + 1, ..., c + numOfTxPerAccount - 1\<close> in this order, where \<open>c\<close> is
  the transaction count the node reported for the account's address when the account was
  prepared, and all of them name that address as sender. The number of accounts and their
  positions do not matter.
\<close>

theorem ConstructTransactions_nonces:
  assumes "accounts = getSenderAccounts w accountIndexes numTxs"
    and "distinct (map wallet accounts)"
  shows "(\<not> dynamic \<longrightarrow> (\<exists>r. ConstructTransactions rt accounts numOfTxPerAccount dynamic = Inr r))
     \<and> (\<forall>accounts' transactions i.
          ConstructTransactions rt accounts numOfTxPerAccount dynamic = Inr (accounts', transactions)
          \<and> i < length accounts \<longrightarrow>
          (\<exists>txs. map_of transactions (walletAddress w (accountIndexes ! i)) = Some txs
             \<and> map tx_nonce txs
                  = [getTransactionCount w (walletAddress w (accountIndexes ! i))
                     ..< getTransactionCount w (walletAddress w (accountIndexes ! i))
                          + numOfTxPerAccount]
             \<and> map tx_from txs
                  = replicate numOfTxPerAccount (Some (walletAddress w (accountIndexes ! i)))))"
proof (intro conjI allI impI)
  assume "\<not> dynamic"
  then show "\<exists>r. ConstructTransactions rt accounts numOfTxPerAccount dynamic = Inr r"
    unfolding ConstructTransactions_def by (rule accountsLoop_static)
next
  fix accounts' transactions i
  assume a: "ConstructTransactions rt accounts numOfTxPerAccount dynamic = Inr (accounts', transactions)
          \<and> i < length accounts"
  then have run: "accountsLoop rt dynamic (length accounts) 0 numOfTxPerAccount accounts []
      = Inr (accounts', transactions)" and i: "i < length accounts"
    by (simp_all add: ConstructTransactions_def)
  have at: "accounts ! i = \<lparr>sender_mnemonicIndex = accountIndexes ! i,
         nonce = getTransactionCount w (walletAddress w (accountIndexes ! i)),
         wallet = walletAddress w (accountIndexes ! i)\<rparr>"
    using assms(1) i getSenderAccounts_nth by blast
  from accountsLoop_result [OF run refl assms(2) _ i]
  show "\<exists>txs. map_of transactions (walletAddress w (accountIndexes ! i)) = Some txs
             \<and> map tx_nonce txs
                  = [getTransactionCount w (walletAddress w (accountIndexes ! i))
                     ..< getTransactionCount w (walletAddress w (accountIndexes ! i))
                          + numOfTxPerAccount]
             \<and> map tx_from txs
                  = replicate numOfTxPerAccount (Some (walletAddress w (accountIndexes ! i)))"
    by (simp add: at)
qed

theorem ConstructTransactions_nonces_witness:
  "distinct (map wallet (getSenderAccounts exampleNode [1, 2] 10))
   \<and> (\<exists>accounts' transactions txs.
         ConstructTransactions exampleEOA (getSenderAccounts exampleNode [1, 2] 10) 3 False
           = Inr (accounts', transactions)
         \<and> map_of transactions ''0xB'' = Some txs
         \<and> map tx_nonce txs = [5, 6, 7]
         \<and> map tx_from txs = [Some ''0xB'', Some ''0xB'', Some ''0xB''])"
proof -
  let ?accounts = "getSenderAccounts exampleNode [1, 2] 10"
  have d: "distinct (map wallet ?accounts)"
    by (simp add: getSenderAccounts_def exampleNode_def)
  note inst = ConstructTransactions_nonces [OF refl d, of False exampleEOA 3]
  from inst obtain accounts' transactions where
    run: "ConstructTransactions exampleEOA ?accounts 3 False = Inr (accounts', transactions)"
    by fastforce
  have len: "1 < length ?accounts" by (simp add: getSenderAccounts_def)
  from inst run len obtain txs where
    "map_of transactions (walletAddress exampleNode ([1, 2] ! 1)) = Some txs"
    "map tx_nonce txs = [getTransactionCount exampleNode (walletAddress exampleNode ([1, 2] ! 1))
        ..< getTransactionCount exampleNode (walletAddress exampleNode ([1, 2] ! 1)) + 3]"
    "map tx_from txs = replicate 3 (Some (walletAddress exampleNode ([1, 2] ! 1)))"
    by blast
  then have found: "ConstructTransactions exampleEOA ?accounts 3 False = Inr (accounts', transactions)
      \<and> map_of transactions ''0xB'' = Some txs \<and> map tx_nonce txs = [5, 6, 7]
      \<and> map tx_from txs = [Some ''0xB'', Some ''0xB'', Some ''0xB'']"
    using run by (simp add: exampleNode_def upt_rec numeral_3_eq_3)
  show ?thesis
  proof (intro conjI exI)
    show "distinct (map wallet ?accounts)" by (rule d)
  qed (use found in blast)+
qed

text \<open>
  C3 (amended). \<open>getFundableAccounts\<close> pops entries in heap order and takes some number \<open>k\<close>
  of them. In the native distributor the tracked balance (the root balance read at the
  start minus what the entries taken so far miss) exceeds the cost of one distribution
  transaction, \<open>costs.accDistributionCost\<close>, before every entry taken, and either the heap
  is exhausted or the tracked balance after the \<open>k\<close> entries no longer exceeds that cost.
  The function returns the \<open>k\<close> entries in the order popped, and raises \<open>errNotEnoughFunds\<close>
  when \<open>k = 0\<close>. In the token distributor the same holds with the supplier's token balance
  and the per-account required token amount \<open>costs.subAccount\<close> as the threshold.
\<close>

theorem getFundableAccounts_stop_condition:
  "(\<exists>k \<le> length initialSet.
       (\<forall>j < k. accDistributionCost costs < tracked rootBalance (take j initialSet))
       \<and> (k < length initialSet \<longrightarrow>
            \<not> accDistributionCost costs < tracked rootBalance (take k initialSet))
       \<and> getFundableAccounts costs rootBalance initialSet
           = (if k = 0 then Inl errNotEnoughFunds else Inr (take k initialSet)))
   \<and> (\<exists>k \<le> length tokenSet.
       (\<forall>j < k. tokenSubAccount tokenCosts < tracked supplierBalance (take j tokenSet))
       \<and> (k < length tokenSet \<longrightarrow>
            \<not> tokenSubAccount tokenCosts < tracked supplierBalance (take k tokenSet))
       \<and> token_getFundableAccounts tokenCosts supplierBalance tokenSet
           = (if k = 0 then Inl errNotEnoughFunds else Inr (take k tokenSet)))"
proof
  from fundableLoop_prefix [of initialSet "accDistributionCost costs" rootBalance "[]"]
  obtain k where k: "k \<le> length initialSet"
    and res: "fundableLoop (accDistributionCost costs) rootBalance initialSet [] = take k initialSet"
    and before: "\<forall>j < k. accDistributionCost costs < tracked rootBalance (take j initialSet)"
    and stop: "k < length initialSet \<longrightarrow>
                 \<not> accDistributionCost costs < tracked rootBalance (take k initialSet)"
    by auto
  have "getFundableAccounts costs rootBalance initialSet
      = (if k = 0 then Inl errNotEnoughFunds else Inr (take k initialSet))"
    using k by (auto simp: getFundableAccounts_def res)
  with k before stop
  show "\<exists>k \<le> length initialSet.
       (\<forall>j < k. accDistributionCost costs < tracked rootBalance (take j initialSet))
       \<and> (k < length initialSet \<longrightarrow>
            \<not> accDistributionCost costs < tracked rootBalance (take k initialSet))
       \<and> getFundableAccounts costs rootBalance initialSet
           = (if k = 0 then Inl errNotEnoughFunds else Inr (take k initialSet))"
    by blast
next
  from fundableLoop_prefix [of tokenSet "tokenSubAccount tokenCosts" supplierBalance "[]"]
  obtain k where k: "k \<le> length tokenSet"
    and res: "token_fundableLoop (tokenSubAccount tokenCosts) supplierBalance tokenSet []
                = take k tokenSet"
    and before: "\<forall>j < k. tokenSubAccount tokenCosts < tracked supplierBalance (take j tokenSet)"
    and stop: "k < length tokenSet \<longrightarrow>
                 \<not> tokenSubAccount tokenCosts < tracked supplierBalance (take k tokenSet)"
    by (auto simp: token_fundableLoop_eq)
  have "token_getFundableAccounts tokenCosts supplierBalance tokenSet
      = (if k = 0 then Inl errNotEnoughFunds else Inr (take k tokenSet))"
    using k by (auto simp: token_getFundableAccounts_def res)
  with k before stop
  show "\<exists>k \<le> length tokenSet.
       (\<forall>j < k. tokenSubAccount tokenCosts < tracked supplierBalance (take j tokenSet))
       \<and> (k < length tokenSet \<longrightarrow>
            \<not> tokenSubAccount tokenCosts < tracked supplierBalance (take k tokenSet))
       \<and> token_getFundableAccounts tokenCosts supplierBalance tokenSet
           = (if k = 0 then Inl errNotEnoughFunds else Inr (take k tokenSet))"
    by blast
qed

theorem getFundableAccounts_stop_condition_witness:
  "getFundableAccounts \<lparr>accDistributionCost = 21000, subAccount = 211000\<rparr> 30000
       [accountA, accountB] = Inr [accountA]
   \<and> 21000 < tracked 30000 []
   \<and> \<not> 21000 < tracked 30000 [accountA]
   \<and> token_getFundableAccounts \<lparr>totalCost = 20, tokenSubAccount = 10\<rparr> 25
       [\<lparr>missingFunds = 10, address = ''0xA'', mnemonicIndex = 1\<rparr>,
        \<lparr>missingFunds = 8, address = ''0xB'', mnemonicIndex = 2\<rparr>,
        \<lparr>missingFunds = 10, address = ''0xC'', mnemonicIndex = 3\<rparr>]
       = Inr [\<lparr>missingFunds = 10, address = ''0xA'', mnemonicIndex = 1\<rparr>,
              \<lparr>missingFunds = 8, address = ''0xB'', mnemonicIndex = 2\<rparr>]
   \<and> getFundableAccounts \<lparr>accDistributionCost = 21000, subAccount = 211000\<rparr> 21000
       [accountA, accountB] = Inl errNotEnoughFunds"
proof -
  let ?costs = "\<lparr>accDistributionCost = 21000, subAccount = 211000\<rparr>"
  let ?tokenCosts = "\<lparr>totalCost = 20, tokenSubAccount = 10\<rparr>"
  let ?tokenSet = "[\<lparr>missingFunds = 10, address = ''0xA'', mnemonicIndex = 1\<rparr>,
        \<lparr>missingFunds = 8, address = ''0xB'', mnemonicIndex = 2\<rparr>,
        \<lparr>missingFunds = 10, address = ''0xC'', mnemonicIndex = 3\<rparr>]"
  have t0: "(21000 :: int) < tracked 30000 []"
    and t1: "\<not> 21000 < tracked 30000 [accountA]"
    by (simp_all add: tracked_def accountA_def)
  note inst = getFundableAccounts_stop_condition [of "[accountA, accountB]" ?costs 30000
      ?tokenSet ?tokenCosts 25]
  from inst have "\<exists>k \<le> length [accountA, accountB].
       (\<forall>j < k. accDistributionCost ?costs < tracked 30000 (take j [accountA, accountB]))
       \<and> (k < length [accountA, accountB] \<longrightarrow>
            \<not> accDistributionCost ?costs < tracked 30000 (take k [accountA, accountB]))
       \<and> getFundableAccounts ?costs 30000 [accountA, accountB]
           = (if k = 0 then Inl errNotEnoughFunds else Inr (take k [accountA, accountB]))"
    by (rule conjunct1)
  then obtain k where k: "k \<le> length [accountA, accountB]"
    and before: "\<forall>j < k. accDistributionCost ?costs < tracked 30000 (take j [accountA, accountB])"
    and stop: "k < length [accountA, accountB] \<longrightarrow>
                 \<not> accDistributionCost ?costs < tracked 30000 (take k [accountA, accountB])"
    and res: "getFundableAccounts ?costs 30000 [accountA, accountB]
                = (if k = 0 then Inl errNotEnoughFunds else Inr (take k [accountA, accountB]))"
    by blast
  have "k \<noteq> 0"
  proof
    assume "k = 0"
    with stop have "\<not> 21000 < tracked 30000 []" by simp
    with t0 show False by simp
  qed
  moreover have "k \<noteq> 2"
  proof
    assume "k = 2"
    then have "(1 :: nat) < k" by simp
    with before have "accDistributionCost ?costs < tracked 30000 (take 1 [accountA, accountB])"
      by blast
    with t1 show False by simp
  qed
  ultimately have "k = 1" using k by simp
  with res have native: "getFundableAccounts ?costs 30000 [accountA, accountB] = Inr [accountA]"
    by simp
  from inst have "\<exists>m \<le> length ?tokenSet.
       (\<forall>j < m. tokenSubAccount ?tokenCosts < tracked 25 (take j ?tokenSet))
       \<and> (m < length ?tokenSet \<longrightarrow>
            \<not> tokenSubAccount ?tokenCosts < tracked 25 (take m ?tokenSet))
       \<and> token_getFundableAccounts ?tokenCosts 25 ?tokenSet
           = (if m = 0 then Inl errNotEnoughFunds else Inr (take m ?tokenSet))"
    by (rule conjunct2)
  then obtain m where m: "m \<le> length ?tokenSet"
    and tbefore: "\<forall>j < m. tokenSubAccount ?tokenCosts < tracked 25 (take j ?tokenSet)"
    and tstop: "m < length ?tokenSet \<longrightarrow>
                  \<not> tokenSubAccount ?tokenCosts < tracked 25 (take m ?tokenSet)"
    and tres: "token_getFundableAccounts ?tokenCosts 25 ?tokenSet
                = (if m = 0 then Inl errNotEnoughFunds else Inr (take m ?tokenSet))"
    by blast
  have "m \<noteq> 0"
  proof
    assume "m = 0"
    with tstop show False by (simp add: tracked_def)
  qed
  moreover have "m \<noteq> 1"
  proof
    assume "m = 1"
    with tstop show False by (simp add: tracked_def)
  qed
  moreover have "m \<noteq> 3"
  proof
    assume "m = 3"
    then have "(2 :: nat) < m" by simp
    with tbefore have "tokenSubAccount ?tokenCosts < tracked 25 (take 2 ?tokenSet)" by blast
    then show False by (simp add: tracked_def numeral_2_eq_2)
  qed
  ultimately have "m = 2" using m by simp
  with tres have token: "token_getFundableAccounts ?tokenCosts 25 ?tokenSet
      = Inr [\<lparr>missingFunds = 10, address = ''0xA'', mnemonicIndex = 1\<rparr>,
              \<lparr>missingFunds = 8, address = ''0xB'', mnemonicIndex = 2\<rparr>]"
    by (simp add: numeral_2_eq_2)
  from getFundableAccounts_stop_condition [of "[accountA, accountB]" ?costs 21000
      ?tokenSet ?tokenCosts 25]
  have "\<exists>n \<le> length [accountA, accountB].
       (\<forall>j < n. accDistributionCost ?costs < tracked 21000 (take j [accountA, accountB]))
       \<and> (n < length [accountA, accountB] \<longrightarrow>
            \<not> accDistributionCost ?costs < tracked 21000 (take n [accountA, accountB]))
       \<and> getFundableAccounts ?costs 21000 [accountA, accountB]
           = (if n = 0 then Inl errNotEnoughFunds else Inr (take n [accountA, accountB]))"
    by (rule conjunct1)
  then obtain n where
    nbefore: "\<forall>j < n. accDistributionCost ?costs < tracked 21000 (take j [accountA, accountB])"
    and nres: "getFundableAccounts ?costs 21000 [accountA, accountB]
                = (if n = 0 then Inl errNotEnoughFunds else Inr (take n [accountA, accountB]))"
    by blast
  have "n = 0"
  proof (rule ccontr)
    assume "n \<noteq> 0"
    then have "0 < n" by simp
    with nbefore have "accDistributionCost ?costs < tracked 21000 (take 0 [accountA, accountB])"
      by blast
    then show False by (simp add: tracked_def)
  qed
  with nres have none: "getFundableAccounts ?costs 21000 [accountA, accountB]
      = Inl errNotEnoughFunds" by simp
  from native t0 t1 token none show ?thesis by simp
qed

text \<open>
  C3 as stated fails for the token distributor: with a supplier balance of 5, a
  per-account cost of 10 and one account that misses 3, the balance is positive, so a loop
  that goes on while the balance is positive takes the account; the loop of the source
  takes nothing and \<open>getFundableAccounts\<close> raises the insufficient-funds error.
\<close>

theorem token_guard_counterexample:
  "token_getFundableAccounts \<lparr>totalCost = 20, tokenSubAccount = 10\<rparr> 5
       [\<lparr>missingFunds = 3, address = ''0xB'', mnemonicIndex = 2\<rparr>]
     = Inl errNotEnoughFunds
   \<and> spec_token_fundableLoop 5 [\<lparr>missingFunds = 3, address = ''0xB'', mnemonicIndex = 2\<rparr>] []
     = [\<lparr>missingFunds = 3, address = ''0xB'', mnemonicIndex = 2\<rparr>]"
  by (simp add: token_getFundableAccounts_def)

text \<open>
  C4. The claim is that an account's index enters \<open>readyMnemonicIndexes\<close> exactly when a
  successful receipt for its own funding transaction is observed. \<open>fundAccounts\<close> pairs
  \<open>txHashes[i]\<close> with \<open>accounts[i]\<close>, but \<open>batchTransactions\<close> leaves out of \<open>txHashes\<close>
  every transaction the node answers with an error. Here two accounts are funded, the node
  answers the transfer to the first (index 1) with an error and the transfer to the second
  (index 2) with its hash, and the receipt for that hash reports success: index 1 is
  marked ready on the receipt of the other account's transaction, and index 2 is not
  marked ready.
\<close>

theorem fundAccounts_marks_wrong_account:
  "batchTransactions (buildFundTxs ''0xROOT'' 100 1 [accountA, accountB] 7) 20 rejectTransferToA
     = Some (Inr (\<lparr>txHashes = [''hash-of-transfer-to-0xB''],
                   batchErrors = [''already known''], maxRetriesReached = 0\<rparr>, []))
   \<and> fundAccounts exampleNode 20 [accountA, accountB] [] = Some (Inr ([1], []))"
  by code_simp

text \<open>
  C5 (amended). For every list of items and every positive integer batch size, \<open>generateBatches\<close>
  returns, and returns groups whose concatenation is the list in its order; every group
  but the last has exactly \<open>batchSize\<close> items, the last has at most \<open>batchSize\<close> and is
  empty only when there are no items, in which case the result is exactly one empty group.
\<close>

theorem generateBatches_partition:
  assumes "0 < batchSize"
  shows "\<exists>batches. generateBatches items batchSize = Some (Inr batches)
     \<and> concat batches = items \<and> batches \<noteq> []
     \<and> (\<forall>k. Suc k < length batches \<longrightarrow> length (batches ! k) = batchSize)
     \<and> length (last batches) \<le> batchSize \<and> (items \<noteq> [] \<longrightarrow> last batches \<noteq> [])
     \<and> (items = [] \<longrightarrow> batches = [[]])"
  using assms by (rule generateBatches_positive)

theorem generateBatches_partition_witness:
  "0 < (2 :: nat)
   \<and> (\<exists>batches. generateBatches [1, 2, 3, 4, 5 :: nat] 2 = Some (Inr batches)
         \<and> concat batches = [1, 2, 3, 4, 5] \<and> batches = [[1, 2], [3, 4], [5]])"
proof -
  have pos: "0 < (2 :: nat)" by simp
  from generateBatches_partition [OF pos, of "[1, 2, 3, 4, 5 :: nat]"]
  obtain batches where ret: "generateBatches [1, 2, 3, 4, 5 :: nat] 2 = Some (Inr batches)"
    and cat: "concat batches = [1, 2, 3, 4, 5]" by blast
  have "generateBatches [1, 2, 3, 4, 5 :: nat] 2 = Some (Inr [[1, 2], [3, 4], [5]])"
    by code_simp
  with ret have "batches = [[1, 2], [3, 4], [5]]" by simp
  with pos ret cat show ?thesis by blast
qed

text \<open>
  C5 as stated fails for the batch size \<open>0\<close>, which is non-negative: with no items the
  result has no group at all (the batch count is \<open>NaN\<close>, which is not \<open>0\<close>, so it is not
  replaced by \<open>1\<close>), and with one item the call never returns (the batch count is
  \<open>Infinity\<close>).
\<close>

theorem generateBatches_zero_counterexample:
  "generateBatches ([] :: nat list) 0 = Some (Inr [])
   \<and> generateBatches [1 :: nat] 0 = None"
  by (simp add: generateBatches_def numBatchesOf_def ceilDiv_def initBatches_NaN
      initBatches_Infinity)

text \<open>
  C6 (amended). Let the node answer every delivered call with one response element per
  request. In per-sender parallel mode, the number of identifiers plus the number of
  error strings plus the number of transactions abandoned after three failed attempts
  (for which only a line is logged) is the number of transactions submitted. In
  grouped-batch mode with a positive integer batch size, if every request is answered at
  some attempt, \<open>batchTransactions\<close> returns, every retry it has started in the background
  comes to an end, and the collections then hold as many identifiers and error strings
  together as transactions were submitted. (At the return of \<open>batchTransactions\<close> they may
  hold fewer: a retry is started without being awaited.)
\<close>

theorem dispatch_accounting:
  assumes "wellFormed post"
  shows "answered (sendTransactionsInParallelBySender signedTxs post)
           + maxRetriesReached (sendTransactionsInParallelBySender signedTxs post)
         = submitted signedTxs
     \<and> (0 < batchSize \<and> (\<forall>req. \<exists>j. post req j \<noteq> TransportFailure) \<longrightarrow>
          (\<exists>c background st.
              batchTransactions txs batchSize post = Some (Inr (c, background))
              \<and> settle post background c = Some st
              \<and> answered st = length txs))"
proof
  show "answered (sendTransactionsInParallelBySender signedTxs post)
           + maxRetriesReached (sendTransactionsInParallelBySender signedTxs post)
         = submitted signedTxs"
    using sendAllSenders_accounting [OF assms, of signedTxs
        "\<lparr>txHashes = [], batchErrors = [], maxRetriesReached = 0\<rparr>"]
    by (simp add: sendTransactionsInParallelBySender_def answered_def)
  show "0 < batchSize \<and> (\<forall>req. \<exists>j. post req j \<noteq> TransportFailure) \<longrightarrow>
          (\<exists>c background st.
              batchTransactions txs batchSize post = Some (Inr (c, background))
              \<and> settle post background c = Some st
              \<and> answered st = length txs)"
    using batchTransactions_accounting [of batchSize post txs] assms by blast
qed

theorem dispatch_accounting_witness:
  "wellFormed failsOnce
   \<and> answered (sendTransactionsInParallelBySender [(''0xA'', [''t1'', ''t2''])] failsOnce)
       + maxRetriesReached (sendTransactionsInParallelBySender [(''0xA'', [''t1'', ''t2''])] failsOnce)
     = 2
   \<and> 0 < (2 :: nat) \<and> (\<forall>req. \<exists>j. failsOnce req j \<noteq> TransportFailure)
   \<and> (\<exists>c background st.
         batchTransactions [''t1'', ''t2'', ''t3''] 2 failsOnce = Some (Inr (c, background))
         \<and> answered c = 0
         \<and> settle failsOnce background c = Some st
         \<and> answered st = 3)"
proof -
  have wf: "wellFormed failsOnce"
    by (auto simp: wellFormed_def failsOnce_def split: if_splits)
  have ev: "\<forall>req. \<exists>j. failsOnce req j \<noteq> TransportFailure"
  proof
    fix req
    have "failsOnce req 1 \<noteq> TransportFailure" by (simp add: failsOnce_def)
    then show "\<exists>j. failsOnce req j \<noteq> TransportFailure" by blast
  qed
  have sub: "submitted [(''0xA'', [''t1'', ''t2''])] = 2" by (simp add: submitted_def)
  note acc = dispatch_accounting [OF wf, of "[(''0xA'', [''t1'', ''t2''])]" 2
      "[''t1'', ''t2'', ''t3'']"]
  from acc sub have par: "answered (sendTransactionsInParallelBySender [(''0xA'', [''t1'', ''t2''])] failsOnce)
       + maxRetriesReached (sendTransactionsInParallelBySender [(''0xA'', [''t1'', ''t2''])] failsOnce)
     = 2" by simp
  have pos: "0 < (2 :: nat)" by simp
  from acc ev pos obtain c background st where
    ret: "batchTransactions [''t1'', ''t2'', ''t3''] 2 failsOnce = Some (Inr (c, background))"
    and fin: "settle failsOnce background c = Some st"
    and cnt: "answered st = length [''t1'', ''t2'', ''t3'']" by blast
  have "batchTransactions [''t1'', ''t2'', ''t3''] 2 failsOnce
      = Some (Inr (\<lparr>txHashes = [], batchErrors = [], maxRetriesReached = 0\<rparr>,
                   [([(0, ''t1''), (1, ''t2'')], 1), ([(2, ''t3'')], 1)]))"
    by code_simp
  with ret have "c = \<lparr>txHashes = [], batchErrors = [], maxRetriesReached = 0\<rparr>" by simp
  then have early: "answered c = 0" by (simp add: answered_def)
  from cnt have "answered st = 3" by (simp add: numeral_3_eq_3)
  with ret early fin have bat: "\<exists>c background st.
         batchTransactions [''t1'', ''t2'', ''t3''] 2 failsOnce = Some (Inr (c, background))
         \<and> answered c = 0
         \<and> settle failsOnce background c = Some st
         \<and> answered st = 3" by blast
  from wf par ev bat show ?thesis by simp
qed

text \<open>
  C6 as stated fails in per-sender parallel mode: when all three attempts for a
  transaction fail, \<open>sendTransactionWithRetry\<close> logs a line and returns; the transaction
  leaves neither an identifier nor an error string.
\<close>

theorem abandoned_transaction_counterexample:
  "answered (sendTransactionsInParallelBySender [(''0xA'', [''signed-tx''])]
               (\<lambda>req attempt. TransportFailure)) = 0
   \<and> submitted [(''0xA'', [''signed-tx''])] = 1"
  by code_simp

text \<open>
  C7. When the allocation loop selects no account, \<open>getFundableAccounts\<close> raises
  \<open>errNotEnoughFunds\<close>, in both distributors. In \<open>distribute\<close> and \<open>distributeTokens\<close>, when
  the scan has found short accounts and the loop selects none of them, the error is the
  result of the whole distribution: no funding is attempted and no list of ready indexes
  is returned.
\<close>

theorem zero_selected_is_fatal:
  "(fundableLoop (accDistributionCost costs) rootBalance initialSet [] = [] \<longrightarrow>
      getFundableAccounts costs rootBalance initialSet = Inl errNotEnoughFunds)
   \<and> (token_fundableLoop (tokenSubAccount tokenCosts) supplierBalance initialSet [] = [] \<longrightarrow>
      token_getFundableAccounts tokenCosts supplierBalance initialSet = Inl errNotEnoughFunds)
   \<and> (fst (findAccountsForDistribution w (subAccount (calculateRuntimeCosts w rt totalTx))
              requestedSubAccounts readyAtEntry) \<noteq> []
      \<and> fundableLoop (accDistributionCost (calculateRuntimeCosts w rt totalTx))
           (getBalance w (walletAddress w 0))
           (heapOrder w (fst (findAccountsForDistribution w
               (subAccount (calculateRuntimeCosts w rt totalTx)) requestedSubAccounts readyAtEntry)))
           [] = [] \<longrightarrow>
      distribute w rt requestedSubAccounts totalTx batchSize readyAtEntry
        = Some (Inl errNotEnoughFunds))
   \<and> (token_calculateRuntimeCosts tokenRt tokenTx (length tokenReady) = Some baseCosts
      \<and> fst (token_findAccountsForDistribution tw tokenRt (tokenSubAccount baseCosts) tokenReady)
            \<noteq> []
      \<and> token_fundableLoop (tokenSubAccount baseCosts) (GetSupplierBalance tokenRt)
           (heapOrder tw (fst (token_findAccountsForDistribution tw tokenRt
               (tokenSubAccount baseCosts) tokenReady))) [] = [] \<longrightarrow>
      distributeTokens tw tokenRt tokenTx tokenBatch tokenReady = Some (Inl errNotEnoughFunds))"
proof (intro conjI impI)
  assume "fundableLoop (accDistributionCost costs) rootBalance initialSet [] = []"
  then show "getFundableAccounts costs rootBalance initialSet = Inl errNotEnoughFunds"
    by (simp add: getFundableAccounts_def)
next
  assume "token_fundableLoop (tokenSubAccount tokenCosts) supplierBalance initialSet [] = []"
  then show "token_getFundableAccounts tokenCosts supplierBalance initialSet = Inl errNotEnoughFunds"
    by (simp add: token_getFundableAccounts_def)
next
  assume "fst (findAccountsForDistribution w (subAccount (calculateRuntimeCosts w rt totalTx))
              requestedSubAccounts readyAtEntry) \<noteq> []
      \<and> fundableLoop (accDistributionCost (calculateRuntimeCosts w rt totalTx))
           (getBalance w (walletAddress w 0))
           (heapOrder w (fst (findAccountsForDistribution w
               (subAccount (calculateRuntimeCosts w rt totalTx)) requestedSubAccounts readyAtEntry)))
           [] = []"
  then show "distribute w rt requestedSubAccounts totalTx batchSize readyAtEntry
        = Some (Inl errNotEnoughFunds)"
    using distribute_aborts by blast
next
  assume "token_calculateRuntimeCosts tokenRt tokenTx (length tokenReady) = Some baseCosts
      \<and> fst (token_findAccountsForDistribution tw tokenRt (tokenSubAccount baseCosts) tokenReady)
            \<noteq> []
      \<and> token_fundableLoop (tokenSubAccount baseCosts) (GetSupplierBalance tokenRt)
           (heapOrder tw (fst (token_findAccountsForDistribution tw tokenRt
               (tokenSubAccount baseCosts) tokenReady))) [] = []"
  then show "distributeTokens tw tokenRt tokenTx tokenBatch tokenReady = Some (Inl errNotEnoughFunds)"
    using distributeTokens_aborts by blast
qed

theorem zero_selected_is_fatal_witness:
  "fundableLoop 21000 0 [accountA] [] = []
   \<and> getFundableAccounts \<lparr>accDistributionCost = 21000, subAccount = 211000\<rparr> 0 [accountA]
       = Inl errNotEnoughFunds
   \<and> token_fundableLoop 10 5 [accountA] [] = []
   \<and> token_getFundableAccounts \<lparr>totalCost = 20, tokenSubAccount = 10\<rparr> 5 [accountA]
       = Inl errNotEnoughFunds
   \<and> fst (findAccountsForDistribution emptyNode
             (subAccount (calculateRuntimeCosts emptyNode exampleRuntime 1)) 2 []) \<noteq> []
   \<and> distribute emptyNode exampleRuntime 2 1 20 [] = Some (Inl errNotEnoughFunds)
   \<and> token_calculateRuntimeCosts exampleTokenRuntime 20 (length [1 :: nat, 2])
       = Some \<lparr>totalCost = 20, tokenSubAccount = 10\<rparr>
   \<and> fst (token_findAccountsForDistribution exampleNode exampleTokenRuntime 10 [1, 2]) \<noteq> []
   \<and> distributeTokens exampleNode exampleTokenRuntime 20 20 [1, 2] = Some (Inl errNotEnoughFunds)"
proof -
  note inst = zero_selected_is_fatal [where
      costs = "\<lparr>accDistributionCost = 21000, subAccount = 211000\<rparr>" and rootBalance = 0
      and initialSet = "[accountA]"
      and tokenCosts = "\<lparr>totalCost = 20, tokenSubAccount = 10\<rparr>" and supplierBalance = 5
      and w = emptyNode and rt = exampleRuntime and totalTx = 1 and requestedSubAccounts = 2
      and readyAtEntry = "[]" and batchSize = 20
      and tokenRt = exampleTokenRuntime and tokenTx = 20 and tokenReady = "[1, 2]"
      and baseCosts = "\<lparr>totalCost = 20, tokenSubAccount = 10\<rparr>" and tw = exampleNode
      and tokenBatch = 20]
  have l1: "fundableLoop 21000 0 [accountA] [] = []" by simp
  have l2: "token_fundableLoop 10 5 [accountA] [] = []" by simp
  have s1: "fst (findAccountsForDistribution emptyNode
             (subAccount (calculateRuntimeCosts emptyNode exampleRuntime 1)) 2 []) \<noteq> []"
    by code_simp
  have z1: "fundableLoop (accDistributionCost (calculateRuntimeCosts emptyNode exampleRuntime 1))
           (getBalance emptyNode (walletAddress emptyNode 0))
           (heapOrder emptyNode (fst (findAccountsForDistribution emptyNode
               (subAccount (calculateRuntimeCosts emptyNode exampleRuntime 1)) 2 []))) [] = []"
    by code_simp
  have c2: "token_calculateRuntimeCosts exampleTokenRuntime 20 (length [1 :: nat, 2])
       = Some \<lparr>totalCost = 20, tokenSubAccount = 10\<rparr>"
    by code_simp
  have s2: "fst (token_findAccountsForDistribution exampleNode exampleTokenRuntime 10 [1, 2]) \<noteq> []"
    by code_simp
  have z2: "token_fundableLoop 10 (GetSupplierBalance exampleTokenRuntime)
           (heapOrder exampleNode (fst (token_findAccountsForDistribution exampleNode
               exampleTokenRuntime 10 [1, 2]))) [] = []"
    by code_simp
  from inst l1 have g1: "getFundableAccounts \<lparr>accDistributionCost = 21000, subAccount = 211000\<rparr> 0
      [accountA] = Inl errNotEnoughFunds" by simp
  from inst l2 have g2: "token_getFundableAccounts \<lparr>totalCost = 20, tokenSubAccount = 10\<rparr> 5
      [accountA] = Inl errNotEnoughFunds" by simp
  from inst s1 z1 have d1: "distribute emptyNode exampleRuntime 2 1 20 [] = Some (Inl errNotEnoughFunds)"
    by blast
  from inst c2 s2 z2 have d2: "distributeTokens exampleNode exampleTokenRuntime 20 20 [1, 2]
      = Some (Inl errNotEnoughFunds)"
    by simp
  from l1 g1 l2 g2 s1 d1 c2 s2 d2 show ?thesis by blast
qed

text \<open>
  C8 (amended). The native scan visits the indexes \<open>1, ..., requestedSubAccounts\<close>. For a
  visited index whose balance is below the required cost, the heap of short accounts holds
  the entry of that index, which misses the required cost minus the balance, and the scan
  does not mark the index ready. For a visited index whose balance is not below the
  required cost, the heap holds no entry of that index and the scan appends the index to
  the ready list. The token scan visits the indexes of its ready list only, and every
  entry it records is for one of them. For a visited index whose token balance is below
  the required amount the heap holds the entry of that index; for any other visited index
  the heap holds no entry of it. The token scan marks nothing: the ready list is left as
  it is, so that every visited index, short or not, is in the ready list when the scan
  returns.
\<close>

theorem shortfall_scan:
  "(1 \<le> i \<and> i \<le> requestedSubAccounts \<longrightarrow>
      (getBalance w (walletAddress w i) < cost \<longrightarrow>
         shortfallEntry w cost (getBalance w (walletAddress w i)) i
           \<in> set (fst (findAccountsForDistribution w cost requestedSubAccounts readyAtEntry))
         \<and> (i \<in> set (snd (findAccountsForDistribution w cost requestedSubAccounts readyAtEntry))
              \<longrightarrow> i \<in> set readyAtEntry))
      \<and> (\<not> getBalance w (walletAddress w i) < cost \<longrightarrow>
         i \<in> set (snd (findAccountsForDistribution w cost requestedSubAccounts readyAtEntry))
         \<and> (\<forall>e \<in> set (fst (findAccountsForDistribution w cost requestedSubAccounts readyAtEntry)).
               mnemonicIndex e \<noteq> i)))
   \<and> (index \<in> set readyMnemonicIndexes \<longrightarrow>
      (GetTokenBalance tokenRt (walletAddress tw index) < tokenCost \<longrightarrow>
         shortfallEntry tw tokenCost (GetTokenBalance tokenRt (walletAddress tw index)) index
           \<in> set (fst (token_findAccountsForDistribution tw tokenRt tokenCost readyMnemonicIndexes)))
      \<and> (\<not> GetTokenBalance tokenRt (walletAddress tw index) < tokenCost \<longrightarrow>
         (\<forall>e \<in> set (fst (token_findAccountsForDistribution tw tokenRt tokenCost
                            readyMnemonicIndexes)).
               mnemonicIndex e \<noteq> index))
      \<and> index \<in> set (snd (token_findAccountsForDistribution tw tokenRt tokenCost
                             readyMnemonicIndexes)))
   \<and> snd (token_findAccountsForDistribution tw tokenRt tokenCost readyMnemonicIndexes)
       = readyMnemonicIndexes
   \<and> (\<forall>e \<in> set (fst (token_findAccountsForDistribution tw tokenRt tokenCost readyMnemonicIndexes)).
         mnemonicIndex e \<in> set readyMnemonicIndexes)"
proof -
  have native: "1 \<le> i \<and> i \<le> requestedSubAccounts \<longrightarrow>
      (getBalance w (walletAddress w i) < cost \<longrightarrow>
         shortfallEntry w cost (getBalance w (walletAddress w i)) i
           \<in> set (fst (findAccountsForDistribution w cost requestedSubAccounts readyAtEntry))
         \<and> (i \<in> set (snd (findAccountsForDistribution w cost requestedSubAccounts readyAtEntry))
              \<longrightarrow> i \<in> set readyAtEntry))
      \<and> (\<not> getBalance w (walletAddress w i) < cost \<longrightarrow>
         i \<in> set (snd (findAccountsForDistribution w cost requestedSubAccounts readyAtEntry))
         \<and> (\<forall>e \<in> set (fst (findAccountsForDistribution w cost requestedSubAccounts readyAtEntry)).
               mnemonicIndex e \<noteq> i))"
  proof
    assume range: "1 \<le> i \<and> i \<le> requestedSubAccounts"
    obtain short ready where
      scan: "findAccountsForDistribution w cost requestedSubAccounts readyAtEntry = (short, ready)"
      by (cases "findAccountsForDistribution w cost requestedSubAccounts readyAtEntry")
    from range have lo: "1 \<le> i" and hi: "i \<le> requestedSubAccounts" by simp_all
    from scan_native [OF scan lo hi]
    show "(getBalance w (walletAddress w i) < cost \<longrightarrow>
         shortfallEntry w cost (getBalance w (walletAddress w i)) i
           \<in> set (fst (findAccountsForDistribution w cost requestedSubAccounts readyAtEntry))
         \<and> (i \<in> set (snd (findAccountsForDistribution w cost requestedSubAccounts readyAtEntry))
              \<longrightarrow> i \<in> set readyAtEntry))
      \<and> (\<not> getBalance w (walletAddress w i) < cost \<longrightarrow>
         i \<in> set (snd (findAccountsForDistribution w cost requestedSubAccounts readyAtEntry))
         \<and> (\<forall>e \<in> set (fst (findAccountsForDistribution w cost requestedSubAccounts readyAtEntry)).
               mnemonicIndex e \<noteq> i))"
      by (simp add: scan)
  qed
  obtain tshort tready where
    tscan: "token_findAccountsForDistribution tw tokenRt tokenCost readyMnemonicIndexes
              = (tshort, tready)"
    by (cases "token_findAccountsForDistribution tw tokenRt tokenCost readyMnemonicIndexes")
  have token: "index \<in> set readyMnemonicIndexes \<longrightarrow>
      (GetTokenBalance tokenRt (walletAddress tw index) < tokenCost \<longrightarrow>
         shortfallEntry tw tokenCost (GetTokenBalance tokenRt (walletAddress tw index)) index
           \<in> set (fst (token_findAccountsForDistribution tw tokenRt tokenCost readyMnemonicIndexes)))
      \<and> (\<not> GetTokenBalance tokenRt (walletAddress tw index) < tokenCost \<longrightarrow>
         (\<forall>e \<in> set (fst (token_findAccountsForDistribution tw tokenRt tokenCost
                            readyMnemonicIndexes)).
               mnemonicIndex e \<noteq> index))
      \<and> index \<in> set (snd (token_findAccountsForDistribution tw tokenRt tokenCost
                             readyMnemonicIndexes))"
  proof
    assume mem: "index \<in> set readyMnemonicIndexes"
    from scan_token [OF tscan mem] mem
    show "(GetTokenBalance tokenRt (walletAddress tw index) < tokenCost \<longrightarrow>
         shortfallEntry tw tokenCost (GetTokenBalance tokenRt (walletAddress tw index)) index
           \<in> set (fst (token_findAccountsForDistribution tw tokenRt tokenCost readyMnemonicIndexes)))
      \<and> (\<not> GetTokenBalance tokenRt (walletAddress tw index) < tokenCost \<longrightarrow>
         (\<forall>e \<in> set (fst (token_findAccountsForDistribution tw tokenRt tokenCost
                            readyMnemonicIndexes)).
               mnemonicIndex e \<noteq> index))
      \<and> index \<in> set (snd (token_findAccountsForDistribution tw tokenRt tokenCost
                             readyMnemonicIndexes))"
      by (simp add: tscan)
  qed
  have kept: "snd (token_findAccountsForDistribution tw tokenRt tokenCost readyMnemonicIndexes)
       = readyMnemonicIndexes"
    by (simp add: token_findAccountsForDistribution_def)
  have origin: "\<forall>e \<in> set (fst (token_findAccountsForDistribution tw tokenRt tokenCost
                                 readyMnemonicIndexes)).
         mnemonicIndex e \<in> set readyMnemonicIndexes"
    by (auto simp: token_findAccountsForDistribution_def token_findAccountsLoop_closed)
  from native token kept origin show ?thesis by (intro conjI)
qed

theorem shortfall_scan_witness:
  "(1 :: nat) \<le> 1 \<and> (1 :: nat) \<le> 2 \<and> getBalance exampleNode (walletAddress exampleNode 1) < 211000
   \<and> \<lparr>missingFunds = 211000, address = ''0xA'', mnemonicIndex = 1\<rparr>
       \<in> set (fst (findAccountsForDistribution exampleNode 211000 2 []))
   \<and> 1 \<notin> set (snd (findAccountsForDistribution exampleNode 211000 2 []))
   \<and> (1 :: nat) \<le> 2 \<and> (2 :: nat) \<le> 2
   \<and> \<not> getBalance exampleNode (walletAddress exampleNode 2) < 211000
   \<and> 2 \<in> set (snd (findAccountsForDistribution exampleNode 211000 2 []))
   \<and> 1 \<in> set [1 :: nat, 2] \<and> GetTokenBalance exampleTokenRuntime (walletAddress exampleNode 1) < 10
   \<and> \<lparr>missingFunds = 10, address = ''0xA'', mnemonicIndex = 1\<rparr>
       \<in> set (fst (token_findAccountsForDistribution exampleNode exampleTokenRuntime 10 [1, 2]))
   \<and> 1 \<in> set (snd (token_findAccountsForDistribution exampleNode exampleTokenRuntime 10 [1, 2]))
   \<and> 2 \<in> set [1 :: nat, 2]
   \<and> \<not> GetTokenBalance exampleTokenRuntime (walletAddress exampleNode 2) < 10
   \<and> 2 \<notin> mnemonicIndex ` set (fst (token_findAccountsForDistribution exampleNode
                                        exampleTokenRuntime 10 [1, 2]))
   \<and> 2 \<in> set (snd (token_findAccountsForDistribution exampleNode exampleTokenRuntime 10 [1, 2]))"
proof -
  have b1: "getBalance exampleNode (walletAddress exampleNode 1) < 211000"
    and b2: "\<not> getBalance exampleNode (walletAddress exampleNode 2) < 211000"
    and t1: "GetTokenBalance exampleTokenRuntime (walletAddress exampleNode 1) < 10"
    and t2: "\<not> GetTokenBalance exampleTokenRuntime (walletAddress exampleNode 2) < 10"
    by (simp_all add: exampleNode_def exampleTokenRuntime_def)
  have m1: "1 \<in> set [1 :: nat, 2]" and m2: "2 \<in> set [1 :: nat, 2]" by simp_all
  note first = shortfall_scan [where i = 1 and requestedSubAccounts = 2 and w = exampleNode
      and cost = 211000 and readyAtEntry = "[]" and index = 1 and readyMnemonicIndexes = "[1, 2]"
      and tokenRt = exampleTokenRuntime and tw = exampleNode and tokenCost = 10]
  note second = shortfall_scan [where i = 2 and requestedSubAccounts = 2 and w = exampleNode
      and cost = 211000 and readyAtEntry = "[]" and index = 2 and readyMnemonicIndexes = "[1, 2]"
      and tokenRt = exampleTokenRuntime and tw = exampleNode and tokenCost = 10]
  from first b1 t1
  have short: "\<lparr>missingFunds = 211000, address = ''0xA'', mnemonicIndex = 1\<rparr>
       \<in> set (fst (findAccountsForDistribution exampleNode 211000 2 []))"
    and tshort: "\<lparr>missingFunds = 10, address = ''0xA'', mnemonicIndex = 1\<rparr>
       \<in> set (fst (token_findAccountsForDistribution exampleNode exampleTokenRuntime 10 [1, 2]))"
    by (simp_all add: shortfallEntry_def exampleNode_def exampleTokenRuntime_def)
  from first b1 have unmarked: "1 \<notin> set (snd (findAccountsForDistribution exampleNode 211000 2 []))"
    by auto
  from first m1
  have tready1: "1 \<in> set (snd (token_findAccountsForDistribution exampleNode exampleTokenRuntime
                                 10 [1, 2]))"
    by blast
  from second b2 have ready: "2 \<in> set (snd (findAccountsForDistribution exampleNode 211000 2 []))"
    by simp
  from second m2 t2
  have tnone: "\<forall>e \<in> set (fst (token_findAccountsForDistribution exampleNode exampleTokenRuntime
                                 10 [1, 2])). mnemonicIndex e \<noteq> 2"
    and tready2: "2 \<in> set (snd (token_findAccountsForDistribution exampleNode exampleTokenRuntime
                                 10 [1, 2]))"
    by blast+
  from tnone
  have tabsent: "2 \<notin> mnemonicIndex ` set (fst (token_findAccountsForDistribution exampleNode
                                        exampleTokenRuntime 10 [1, 2]))"
    by auto
  from b1 b2 t1 t2 short tshort unmarked tready1 ready tabsent tready2 show ?thesis by simp
qed

text \<open>
  C8 as stated fails for the token distributor. The scan the claim describes marks an
  index ready when its balance is not below the required amount, and only then: of the
  candidates \<open>1\<close> (no tokens) and \<open>2\<close> (12 tokens, 10 required) it marks \<open>2\<close>. The scan of the
  source has no such branch; its ready list holds the short index \<open>1\<close> as well. And the
  index \<open>2\<close>, which needs no transfer, does not end up in the ready set: \<open>fundAccounts\<close>
  clears the list before it funds index \<open>1\<close>, so that \<open>distributeTokens\<close> returns \<open>[1]\<close>.
\<close>

theorem token_scan_counterexample:
  "spec_token_findAccountsLoop exampleNode exampleTokenRuntime 10 [1, 2] ([], [])
     = ([\<lparr>missingFunds = 10, address = ''0xA'', mnemonicIndex = 1\<rparr>], [2])
   \<and> token_findAccountsForDistribution exampleNode exampleTokenRuntime 10 [1, 2]
     = ([\<lparr>missingFunds = 10, address = ''0xA'', mnemonicIndex = 1\<rparr>], [1, 2])
   \<and> token_calculateRuntimeCosts suppliedTokenRuntime 20 (length [1 :: nat, 2])
     = Some \<lparr>totalCost = 20, tokenSubAccount = 10\<rparr>
   \<and> distributeTokens exampleNode suppliedTokenRuntime 20 20 [1, 2] = Some (Inr [1])"
  by code_simp

text \<open>
  C9. The required balance of a sub-account computed by \<open>calculateRuntimeCosts\<close> is the
  cost of one operation (gas price times gas estimate, plus the inherent value) times the
  number of transactions \<open>totalTx\<close>, times the fixed factor 10.
\<close>

theorem calculateRuntimeCosts_subAccount:
  "subAccount (calculateRuntimeCosts w runtimeEstimator totalTx)
     = 10 * (totalTx * (GetGasPrice runtimeEstimator * EstimateBaseTx runtimeEstimator
                         + GetValue runtimeEstimator))"
  by (simp add: calculateRuntimeCosts_def Let_def)

theorem calculateRuntimeCosts_subAccount_witness:
  "subAccount (calculateRuntimeCosts exampleNode exampleRuntime 3) = 10 * (3 * (1 * 21000 + 100))
   \<and> subAccount (calculateRuntimeCosts exampleNode exampleRuntime 3) = 633000"
  using calculateRuntimeCosts_subAccount [of exampleNode exampleRuntime 3]
  by (simp add: exampleRuntime_def)

text \<open>
  C10. The claim is that the index of an account is added to \<open>readyMnemonicIndexes\<close>
  whenever the wait for its funding transaction returns a receipt whose status is not \<open>0\<close>,
  a receipt without a status included. The test of both \<open>fundAccounts\<close> does let a receipt
  without a status pass: funding \<open>0xB\<close> alone, its receipt without a status marks index 2,
  and so it is whenever the node has accepted every funding transaction (lemmas
  \<open>fundAccounts_aligned\<close> and \<open>token_fundAccounts_aligned\<close>).
  But the index then added is that of \<open>accounts[i]\<close> for the position \<open>i\<close> of the hash in
  \<open>txHashes\<close>, and \<open>batchTransactions\<close> leaves out of \<open>txHashes\<close> every transaction the node
  answers with an error. Here the accounts with index 1 (at \<open>0xA\<close>) and index 2 (at \<open>0xB\<close>)
  are funded, the node answers the funding of \<open>0xA\<close> with an error, and the wait for the
  funding of \<open>0xB\<close> returns a receipt without a status: in both distributors index 1 is
  added and index 2, the index of the account whose receipt it is, is not.
\<close>

theorem statusless_receipt_marks_wrong_account:
  "fundAccounts statuslessNode 20 [accountB] [] = Some (Inr ([2], []))
   \<and> token_fundAccounts statuslessNode exampleTokenRuntime 20 [accountB] = Some (Inr ([2], []))
   \<and> batchTransactions (buildFundTxs ''0xROOT'' 100 1 [accountA, accountB] 7) 20 rejectFundingOfA
     = Some (Inr (\<lparr>txHashes = [''hash-of-funding-0xB''],
                   batchErrors = [''already known''], maxRetriesReached = 0\<rparr>, []))
   \<and> map_option (map_sum id (\<lambda>sent. txHashes (fst sent)))
       (batchTransactions
          (token_buildFundTxs exampleTokenRuntime 100 1 50000 [accountA, accountB] 7) 20
          rejectFundingOfA)
     = Some (Inr [''hash-of-funding-0xB''])
   \<and> waitForTransaction statuslessNode ''hash-of-funding-0xB'' = Receipt None
   \<and> fundAccounts statuslessNode 20 [accountA, accountB] [] = Some (Inr ([1], []))
   \<and> token_fundAccounts statuslessNode exampleTokenRuntime 20 [accountA, accountB]
     = Some (Inr ([1], []))"
  by code_simp

end
